theory Spec2Isabelle
  imports Complex_Main "HOL-Library.Log_Nat"
begin

section \<open>Exceptions\<close>

text \<open>
  The exceptions the modelled code can raise. A function that can raise returns
  \<open>error + 'a\<close>, with \<open>Inl\<close> the exception; \<open>bind_err\<close> runs the next statement on the
  value, or passes the exception on to the caller.
\<close>

datatype error =
    FileNotFoundError | PermissionError | UnidentifiedImageError | OSError
  | ValueError | OverflowError | ZeroDivisionError

text \<open>
  \<open>except OSError\<close> catches \<open>OSError\<close> and its subclasses: \<open>FileNotFoundError\<close> and
  \<open>PermissionError\<close> of Python, and \<open>UnidentifiedImageError\<close> of Pillow, raised for a file
  that is no image. \<open>ValueError\<close> and the arithmetic errors are no subclasses of it.
\<close>

fun is_OSError :: "error \<Rightarrow> bool" where
  "is_OSError FileNotFoundError = True"
| "is_OSError PermissionError = True"
| "is_OSError UnidentifiedImageError = True"
| "is_OSError OSError = True"
| "is_OSError ValueError = False"
| "is_OSError OverflowError = False"
| "is_OSError ZeroDivisionError = False"

definition bind_err :: "error + 'a \<Rightarrow> ('a \<Rightarrow> error + 'b) \<Rightarrow> error + 'b" where
  "bind_err m f = (case m of Inl e \<Rightarrow> Inl e | Inr v \<Rightarrow> f v)"

section \<open>Python floats\<close>

text \<open>
  A Python \<open>float\<close> is an IEEE 754 binary64 number: a finite value (a rational, the sign
  of zero dropped: nothing modelled here divides by a float or prints one), an infinity
  or NaN. Every arithmetic result is the exact result rounded to the nearest double, ties
  to the even significand.

  \<open>rne\<close> rounds a rational to the nearest integer, ties to even. \<open>ilog2 x\<close> is
  \<open>floor (log\<^sub>2 x)\<close> for \<open>x > 0\<close>. \<open>quantum x\<close> is the exponent of the unit in the last place
  of the doubles around \<open>x\<close>: 53 significant bits, and no exponent below \<open>-1074\<close> (the
  subnormal range).
\<close>

definition rne :: "rat \<Rightarrow> int" where
  "rne x = (let f = \<lfloor>x\<rfloor>; d = x - of_int f in
     if d < 1 / 2 then f else if 1 / 2 < d then f + 1 else if even f then f else f + 1)"

definition ilog2 :: "rat \<Rightarrow> int" where
  "ilog2 x = (case quotient_of x of (p, q) \<Rightarrow>
     let k = bitlen p - bitlen q in if 2 powi k \<le> x then k else k - 1)"

definition quantum :: "rat \<Rightarrow> int" where
  "quantum x = max (ilog2 x - 52) (- 1074)"

definition round_pos :: "rat \<Rightarrow> rat" where
  "round_pos x = of_int (rne (x / 2 powi quantum x)) * 2 powi quantum x"

definition round_even :: "rat \<Rightarrow> rat" where
  "round_even x = (if x = 0 then 0 else if 0 < x then round_pos x else - round_pos (- x))"

datatype pyfloat = Finite rat | PosInf | NegInf | NaN

text \<open>
  The double nearest to an exact result; when the rounded magnitude reaches \<open>2\<^sup>1\<^sup>0\<^sup>2\<^sup>4\<close>,
  beyond the largest double, it is an infinity.
\<close>

definition to_double :: "rat \<Rightarrow> pyfloat" where
  "to_double x = (let r = round_even x in
     if r = 0 then Finite 0
     else if 1024 \<le> ilog2 \<bar>r\<bar> then (if 0 < r then PosInf else NegInf)
     else Finite r)"

text \<open>A float literal of the source, such as \<open>0.35\<close>: the double nearest to the decimal.\<close>

definition float_lit :: "rat \<Rightarrow> pyfloat" where
  "float_lit q = to_double q"

text \<open>The sign of a float that is not NaN, as \<open>-1\<close>, \<open>0\<close> or \<open>1\<close>.\<close>

fun fsgn :: "pyfloat \<Rightarrow> int" where
  "fsgn (Finite x) = (if x = 0 then 0 else if 0 < x then 1 else - 1)"
| "fsgn PosInf = 1"
| "fsgn NegInf = - 1"
| "fsgn NaN = 0"

text \<open>\<open>a * b\<close> and \<open>a + b\<close> on floats: they never raise.\<close>

fun fmul :: "pyfloat \<Rightarrow> pyfloat \<Rightarrow> pyfloat" where
  "fmul (Finite a) (Finite b) = to_double (a * b)"
| "fmul a b =
     (if a = NaN \<or> b = NaN \<or> fsgn a * fsgn b = 0 then NaN
      else if 0 < fsgn a * fsgn b then PosInf else NegInf)"

fun fadd :: "pyfloat \<Rightarrow> pyfloat \<Rightarrow> pyfloat" where
  "fadd (Finite a) (Finite b) = to_double (a + b)"
| "fadd NaN b = NaN"
| "fadd a NaN = NaN"
| "fadd PosInf NegInf = NaN"
| "fadd NegInf PosInf = NaN"
| "fadd (Finite a) b = b"
| "fadd a b = a"

text \<open>\<open>a < b\<close> on floats: false whenever an operand is NaN.\<close>

fun flt :: "pyfloat \<Rightarrow> pyfloat \<Rightarrow> bool" where
  "flt (Finite a) (Finite b) = (a < b)"
| "flt NaN b = False"
| "flt a NaN = False"
| "flt a NegInf = False"
| "flt PosInf b = False"
| "flt NegInf b = True"
| "flt a PosInf = True"

text \<open>
  \<open>int(f)\<close> truncates toward zero; it raises \<open>ValueError\<close> on NaN and \<open>OverflowError\<close> on
  an infinity.
\<close>

fun py_int :: "pyfloat \<Rightarrow> error + int" where
  "py_int (Finite x) = Inr (if 0 \<le> x then \<lfloor>x\<rfloor> else \<lceil>x\<rceil>)"
| "py_int NaN = Inl ValueError"
| "py_int PosInf = Inl OverflowError"
| "py_int NegInf = Inl OverflowError"

text \<open>
  An \<open>int\<close> operand of a float operation is converted to the nearest double first;
  Python raises \<open>OverflowError\<close> for an \<open>int\<close> beyond the largest double.
\<close>

definition float_of_int :: "int \<Rightarrow> error + pyfloat" where
  "float_of_int n =
     (case to_double (of_int n) of Finite r \<Rightarrow> Inr (Finite r) | _ \<Rightarrow> Inl OverflowError)"

text \<open>\<open>a / b\<close> on two \<open>int\<close>s: the exact quotient rounded once.\<close>

definition int_truediv :: "int \<Rightarrow> int \<Rightarrow> error + pyfloat" where
  "int_truediv a b =
     (if b = 0 then Inl ZeroDivisionError
      else case to_double (of_int a / of_int b) of
             Finite r \<Rightarrow> Inr (Finite r) | _ \<Rightarrow> Inl OverflowError)"

text \<open>\<open>n * f\<close> and \<open>n + f\<close> for an \<open>int\<close> \<open>n\<close> and a float \<open>f\<close>, and \<open>int(n * f)\<close>.\<close>

definition int_mul_float :: "int \<Rightarrow> pyfloat \<Rightarrow> error + pyfloat" where
  "int_mul_float n f = bind_err (float_of_int n) (\<lambda>nf. Inr (fmul nf f))"

definition int_add_float :: "int \<Rightarrow> pyfloat \<Rightarrow> error + pyfloat" where
  "int_add_float n f = bind_err (float_of_int n) (\<lambda>nf. Inr (fadd nf f))"

definition scaled_int :: "int \<Rightarrow> pyfloat \<Rightarrow> error + int" where
  "scaled_int n f = bind_err (int_mul_float n f) py_int"

text \<open>
  The builtins \<open>min(a, b)\<close> and \<open>max(a, b)\<close> keep the first argument unless the second is
  strictly smaller (larger), so a NaN in first place survives and one in second place is
  dropped.
  \<^verbatim>\<open>
  def clamp(value, min_value, max_value):
      return max(min_value, min(value, max_value))
  \<close>
\<close>

definition py_min :: "pyfloat \<Rightarrow> pyfloat \<Rightarrow> pyfloat" where
  "py_min a b = (if flt b a then b else a)"

definition py_max :: "pyfloat \<Rightarrow> pyfloat \<Rightarrow> pyfloat" where
  "py_max a b = (if flt a b then b else a)"

definition clamp :: "pyfloat \<Rightarrow> pyfloat \<Rightarrow> pyfloat \<Rightarrow> pyfloat" where
  "clamp v min_value max_value = py_max min_value (py_min v max_value)"

section \<open>Scene model\<close>

text \<open>
  The dataclasses of the source, field by field; a field \<open>f\<close> of \<open>TextLayer\<close>,
  \<open>ImageLayer\<close>, \<open>OverlayLayer\<close> is \<open>text_f\<close>, \<open>image_f\<close>, \<open>overlay_f\<close> here, since the three
  classes share field names.
\<close>

record gradient_settings =
  start_color :: string
  end_color :: string
  direction :: string

record background_settings =
  bg_mode :: string
  solid_color :: string
  gradient :: gradient_settings
  bg_image_path :: "string option"
  bg_blur_radius :: pyfloat
  brightness :: pyfloat
  contrast :: pyfloat
  saturation :: pyfloat

record shadow_settings =
  shadow_enabled :: bool
  shadow_offset_x :: int
  shadow_offset_y :: int
  shadow_blur_radius :: int
  shadow_color :: string
  shadow_opacity :: pyfloat

record stroke_settings =
  stroke_width :: int
  stroke_color :: string

record text_layer =
  text_id :: string
  text_label :: string
  text_text :: string
  text_font_file :: string
  text_font_size :: int
  text_color :: string
  text_align :: string
  text_position_x :: pyfloat
  text_position_y :: pyfloat
  text_max_width :: pyfloat
  text_tracking :: int
  text_rotation :: pyfloat
  text_shadow :: shadow_settings
  text_stroke :: stroke_settings

record image_layer =
  image_id :: string
  image_label :: string
  image_image_path :: "string option"
  image_scale :: pyfloat
  image_rotation :: pyfloat
  image_position_x :: pyfloat
  image_position_y :: pyfloat
  image_opacity :: pyfloat
  image_flip_horizontal :: bool
  image_flip_vertical :: bool
  image_add_shadow :: bool
  image_shadow_blur :: int
  image_shadow_offset_x :: int
  image_shadow_offset_y :: int
  image_shadow_opacity :: pyfloat

record overlay_layer =
  overlay_id :: string
  overlay_label :: string
  overlay_mode :: string
  overlay_color :: string
  overlay_opacity :: pyfloat
  overlay_position_x :: pyfloat
  overlay_position_y :: pyfloat
  overlay_width :: pyfloat
  overlay_height :: pyfloat
  overlay_blur_radius :: int
  overlay_rotation :: pyfloat
  overlay_rounded :: int

text \<open>
  The state of \<open>ThumbnailDesigner\<close> that the renderer and the layer operations read and
  write; \<open>__init__\<close> sets the canvas to 1280 by 720. The widgets are not modelled.
\<close>

record designer =
  base_width :: int
  base_height :: int
  background :: background_settings
  text_layers :: "text_layer list"
  image_layers :: "image_layer list"
  overlay_layers :: "overlay_layer list"
  current_text_id :: "string option"
  current_image_id :: "string option"
  current_overlay_id :: "string option"
  layer_order :: "(string \<times> string) list"

section \<open>Images\<close>

text \<open>
  An image is the term of the Pillow calls that built it: the drawing, filtering and
  compositing calls are recorded, not rasterised. A colour is an RGBA tuple.
\<close>

type_synonym rgba = "int \<times> int \<times> int \<times> int"

datatype draw_op =
    RoundedRectangle "int list" int rgba
  | Ellipse "int list" rgba
  | Polygon "(int \<times> int) list" rgba
  | Line "int \<times> int" "int \<times> int" rgba
  | Point "int \<times> int" rgba

datatype image =
    New int int rgba
  | Opened string
  | Draw draw_op image
  | GaussianBlur pyfloat image
  | Rotate pyfloat "int \<times> int" image
  | AlphaComposite image image
  | Fit int int image
  | Brightness pyfloat image
  | Contrast pyfloat image
  | Color pyfloat image

datatype font = FreeTypeFont string int

text \<open>
  What the program reads from outside itself: the colour parser
  (\<open>ImageColor.getrgb\<close>; the alpha it returns is 255 unless the string carries one), the
  file system (\<open>Path(p).exists()\<close>, which answers or raises: the test raises \<open>OSError\<close>
  where the system refuses the name itself, a name longer than the system allows for
  one; and the same test for a file of the fonts directory, where an exception would
  end \<open>ensure_font_path\<close> as the missing file does, so only its answer is kept), the
  font loader and the font's \<open>getbbox\<close>, and the image decoder
  (\<open>Image.open(p).convert("RGBA")\<close>). Two parts of the renderer are taken from outside
  as well, since no property below looks into them: \<open>_render_image_layer\<close>, and the part
  of \<open>_render_text_layer\<close> that places and draws the wrapped lines; both read the canvas
  size only.
\<close>

record env =
  getrgb :: "string \<Rightarrow> error + rgba"
  path_exists :: "string \<Rightarrow> error + bool"
  font_exists :: "string \<Rightarrow> bool"
  truetype :: "string \<Rightarrow> int \<Rightarrow> error + font"
  getbbox :: "font \<Rightarrow> string \<Rightarrow> int \<times> int \<times> int \<times> int"
  image_open :: "string \<Rightarrow> error + image"
  render_image_layer :: "int \<Rightarrow> int \<Rightarrow> image_layer \<Rightarrow> error + image"
  draw_lines :: "int \<Rightarrow> int \<Rightarrow> text_layer \<Rightarrow> font \<Rightarrow> string list \<Rightarrow> error + image"

text \<open>
  \<^verbatim>\<open>
  def hex_to_rgba(hex_color, alpha=1.0):
      rgb = ImageColor.getrgb(hex_color)
      return rgb[0], rgb[1], rgb[2], int(clamp(alpha, 0, 1) * 255)
  \<close>
\<close>

definition hex_to_rgba :: "env \<Rightarrow> string \<Rightarrow> pyfloat \<Rightarrow> error + rgba" where
  "hex_to_rgba E hex_color alpha =
     bind_err (getrgb E hex_color) (\<lambda>(r, g, b, _).
     bind_err (py_int (fmul (clamp alpha (Finite 0) (Finite 1)) (Finite 255))) (\<lambda>a.
     Inr (r, g, b, a)))"

text \<open>\<open>Image.new("RGBA", (w, h), color)\<close> with a colour string.\<close>

definition image_new :: "env \<Rightarrow> int \<Rightarrow> int \<Rightarrow> string \<Rightarrow> error + image" where
  "image_new E w h color = bind_err (getrgb E color) (\<lambda>c. Inr (New w h c))"

section \<open>Shape (overlay) renderer\<close>

text \<open>
  \<^verbatim>\<open>
  def _render_overlay_layer(self, layer):
      overlay = Image.new("RGBA", (self.base_width, self.base_height), (0, 0, 0, 0))
      draw = ImageDraw.Draw(overlay)
      width = int(self.base_width * layer.width)
      height = int(self.base_height * layer.height)
      x = int(self.base_width * layer.position_x)
      y = int(self.base_height * layer.position_y)
      rect = [x - width // 2, y - height // 2, x + width // 2, y + height // 2]
      color = hex_to_rgba(layer.color, layer.opacity)
      if layer.mode == "rectangle":
          draw.rounded_rectangle(rect, radius=layer.rounded, fill=color)
      elif layer.mode == "circle":
          draw.ellipse(rect, fill=color)
      elif layer.mode == "banner":
          banner_rect = [rect[0], rect[1], rect[2], rect[3] - int(height * 0.25)]
          draw.rounded_rectangle(banner_rect, radius=layer.rounded, fill=color)
          triangle_height = int(height * 0.35)
          triangle = [(rect[0], rect[3] - triangle_height),
                      (rect[0] + width // 4, rect[3]),
                      (rect[0] + width // 2, rect[3] - triangle_height)]
          draw.polygon(triangle, fill=color)
          triangle2 = [(rect[2], rect[3] - triangle_height),
                       (rect[2] - width // 4, rect[3]),
                       (rect[2] - width // 2, rect[3] - triangle_height)]
          draw.polygon(triangle2, fill=color)
      if layer.blur_radius > 0:
          overlay = overlay.filter(ImageFilter.GaussianBlur(layer.blur_radius))
      if layer.rotation != 0:
          overlay = overlay.rotate(layer.rotation, expand=False, center=(x, y), ...)
      return overlay
  \<close>
  The pixel rectangle \<open>rect\<close> is \<open>[left, top, right, bottom]\<close>, with \<open>y\<close> growing downward.
\<close>

definition overlay_rect :: "int \<Rightarrow> int \<Rightarrow> int \<Rightarrow> int \<Rightarrow> int list" where
  "overlay_rect x y width height =
     [x - width div 2, y - height div 2, x + width div 2, y + height div 2]"

text \<open>The drawing calls of the \<open>banner\<close> branch, for the pixel rectangle of the layer.\<close>

definition banner_shapes :: "int list \<Rightarrow> int \<Rightarrow> int \<Rightarrow> int \<Rightarrow> rgba \<Rightarrow> error + draw_op list" where
  "banner_shapes rect width height rounded color =
     bind_err (scaled_int height (float_lit (25 / 100))) (\<lambda>quarter.
     let banner_rect = [rect ! 0, rect ! 1, rect ! 2, rect ! 3 - quarter] in
     bind_err (scaled_int height (float_lit (35 / 100))) (\<lambda>triangle_height.
     let triangle = [(rect ! 0, rect ! 3 - triangle_height),
                     (rect ! 0 + width div 4, rect ! 3),
                     (rect ! 0 + width div 2, rect ! 3 - triangle_height)];
         triangle2 = [(rect ! 2, rect ! 3 - triangle_height),
                      (rect ! 2 - width div 4, rect ! 3),
                      (rect ! 2 - width div 2, rect ! 3 - triangle_height)]
     in Inr [RoundedRectangle banner_rect rounded color,
             Polygon triangle color, Polygon triangle2 color]))"

text \<open>The drawing calls of a layer, in the order they are made.\<close>

definition overlay_shapes ::
  "overlay_layer \<Rightarrow> int list \<Rightarrow> int \<Rightarrow> int \<Rightarrow> rgba \<Rightarrow> error + draw_op list" where
  "overlay_shapes layer rect width height color =
     (if overlay_mode layer = ''rectangle''
        then Inr [RoundedRectangle rect (overlay_rounded layer) color]
      else if overlay_mode layer = ''circle'' then Inr [Ellipse rect color]
      else if overlay_mode layer = ''banner''
        then banner_shapes rect width height (overlay_rounded layer) color
      else Inr [])"

definition render_overlay_layer :: "env \<Rightarrow> designer \<Rightarrow> overlay_layer \<Rightarrow> error + image" where
  "render_overlay_layer E self layer =
     (let overlay = New (base_width self) (base_height self) (0, 0, 0, 0) in
      bind_err (scaled_int (base_width self) (overlay_width layer)) (\<lambda>width.
      bind_err (scaled_int (base_height self) (overlay_height layer)) (\<lambda>height.
      bind_err (scaled_int (base_width self) (overlay_position_x layer)) (\<lambda>x.
      bind_err (scaled_int (base_height self) (overlay_position_y layer)) (\<lambda>y.
      let rect = overlay_rect x y width height in
      bind_err (hex_to_rgba E (overlay_color layer) (overlay_opacity layer)) (\<lambda>color.
      bind_err (overlay_shapes layer rect width height color) (\<lambda>shapes.
      let overlay = foldl (\<lambda>img s. Draw s img) overlay shapes;
          overlay = (if 0 < overlay_blur_radius layer
                     then GaussianBlur (Finite (of_int (overlay_blur_radius layer))) overlay
                     else overlay);
          overlay = (if overlay_rotation layer \<noteq> Finite 0
                     then Rotate (overlay_rotation layer) (x, y) overlay
                     else overlay)
      in Inr overlay)))))))"

text \<open>
  The colour every shape of a layer is filled with: what \<open>_render_overlay_layer\<close> passes
  as \<open>fill\<close>.
\<close>

definition overlay_fill :: "env \<Rightarrow> overlay_layer \<Rightarrow> error + rgba" where
  "overlay_fill E layer = hex_to_rgba E (overlay_color layer) (overlay_opacity layer)"

fun shape_fill :: "draw_op \<Rightarrow> rgba" where
  "shape_fill (RoundedRectangle r k c) = c"
| "shape_fill (Ellipse r c) = c"
| "shape_fill (Polygon ps c) = c"
| "shape_fill (Line p q c) = c"
| "shape_fill (Point p c) = c"

text \<open>The shapes drawn on an image, oldest first, through a blur and a rotation.\<close>

fun shapes_of :: "image \<Rightarrow> draw_op list" where
  "shapes_of (Draw s img) = shapes_of img @ [s]"
| "shapes_of (GaussianBlur r img) = shapes_of img"
| "shapes_of (Rotate a c img) = shapes_of img"
| "shapes_of img = []"

section \<open>Background renderer\<close>

text \<open>
  \<^verbatim>\<open>
  def _apply_background_corrections(self, img):
      if self.background.brightness != 1.0:
          img = ImageEnhance.Brightness(img).enhance(self.background.brightness)
      if self.background.contrast != 1.0:
          img = ImageEnhance.Contrast(img).enhance(self.background.contrast)
      if self.background.saturation != 1.0:
          img = ImageEnhance.Color(img).enhance(self.background.saturation)
      return img
  \<close>
\<close>

definition apply_background_corrections :: "designer \<Rightarrow> image \<Rightarrow> image" where
  "apply_background_corrections self img =
     (let bg = background self;
          img = (if brightness bg \<noteq> Finite 1 then Brightness (brightness bg) img else img);
          img = (if contrast bg \<noteq> Finite 1 then Contrast (contrast bg) img else img);
          img = (if saturation bg \<noteq> Finite 1 then Color (saturation bg) img else img)
      in img)"

text \<open>
  One channel of the gradient, \<open>int(start[i] + (end[i] - start[i]) * ratio)\<close>, and the
  four channels of a pixel.
\<close>

definition lerp_channel :: "int \<Rightarrow> int \<Rightarrow> pyfloat \<Rightarrow> error + int" where
  "lerp_channel s e ratio =
     bind_err (int_mul_float (e - s) ratio) (\<lambda>step.
     bind_err (int_add_float s step) py_int)"

fun lerp_color :: "rgba \<Rightarrow> rgba \<Rightarrow> pyfloat \<Rightarrow> error + rgba" where
  "lerp_color (r0, g0, b0, a0) (r1, g1, b1, a1) ratio =
     bind_err (lerp_channel r0 r1 ratio) (\<lambda>r.
     bind_err (lerp_channel g0 g1 ratio) (\<lambda>g.
     bind_err (lerp_channel b0 b1 ratio) (\<lambda>b.
     bind_err (lerp_channel a0 a1 ratio) (\<lambda>a.
     Inr (r, g, b, a)))))"

text \<open>
  The three loops of \<open>_render_gradient_background\<close>, over the columns, the rows and the
  pixels (\<open>range(n)\<close> is \<open>[0..n - 1]\<close>); each iteration draws on the image of the one before.
  \<^verbatim>\<open>
      for x in range(self.base_width):
          ratio = x / (self.base_width - 1)
          color = tuple(int(start[i] + (end[i] - start[i]) * ratio) for i in range(4))
          draw.line([(x, 0), (x, self.base_height)], fill=color)
      ...
      for y in range(self.base_height):
          ratio = y / (self.base_height - 1)
          color = ...
          draw.line([(0, y), (self.base_width, y)], fill=color)
      ...
      for y in range(self.base_height):
          for x in range(self.base_width):
              ratio = (x + y) / (self.base_width + self.base_height)
              color = ...
              draw.point((x, y), fill=color)
  \<close>
\<close>

fun gradient_columns :: "rgba \<Rightarrow> rgba \<Rightarrow> int \<Rightarrow> int \<Rightarrow> int list \<Rightarrow> image \<Rightarrow> error + image" where
  "gradient_columns start end' w h [] img = Inr img"
| "gradient_columns start end' w h (x # xs) img =
     bind_err (int_truediv x (w - 1)) (\<lambda>ratio.
     bind_err (lerp_color start end' ratio) (\<lambda>color.
     gradient_columns start end' w h xs (Draw (Line (x, 0) (x, h) color) img)))"

fun gradient_rows :: "rgba \<Rightarrow> rgba \<Rightarrow> int \<Rightarrow> int \<Rightarrow> int list \<Rightarrow> image \<Rightarrow> error + image" where
  "gradient_rows start end' w h [] img = Inr img"
| "gradient_rows start end' w h (y # ys) img =
     bind_err (int_truediv y (h - 1)) (\<lambda>ratio.
     bind_err (lerp_color start end' ratio) (\<lambda>color.
     gradient_rows start end' w h ys (Draw (Line (0, y) (w, y) color) img)))"

definition diagonal_ratio :: "int \<Rightarrow> int \<Rightarrow> int \<Rightarrow> int \<Rightarrow> error + pyfloat" where
  "diagonal_ratio w h x y = int_truediv (x + y) (w + h)"

definition diagonal_color :: "rgba \<Rightarrow> rgba \<Rightarrow> int \<Rightarrow> int \<Rightarrow> int \<times> int \<Rightarrow> error + rgba" where
  "diagonal_color start end' w h p =
     bind_err (diagonal_ratio w h (fst p) (snd p)) (lerp_color start end')"

fun gradient_pixels ::
  "rgba \<Rightarrow> rgba \<Rightarrow> int \<Rightarrow> int \<Rightarrow> (int \<times> int) list \<Rightarrow> image \<Rightarrow> error + image" where
  "gradient_pixels start end' w h [] img = Inr img"
| "gradient_pixels start end' w h (p # ps) img =
     bind_err (diagonal_color start end' w h p) (\<lambda>color.
     gradient_pixels start end' w h ps (Draw (Point p color) img))"

text \<open>The pixels in the order of the nested loops: rows outside, columns inside.\<close>

definition canvas_pixels :: "int \<Rightarrow> int \<Rightarrow> (int \<times> int) list" where
  "canvas_pixels w h = concat (map (\<lambda>y. map (\<lambda>x. (x, y)) [0..w - 1]) [0..h - 1])"

text \<open>
  \<^verbatim>\<open>
  def _render_gradient_background(self):
      gradient_layer = Image.new("RGBA", (self.base_width, self.base_height))
      draw = ImageDraw.Draw(gradient_layer)
      start = hex_to_rgba(self.background.gradient.start_color)
      end = hex_to_rgba(self.background.gradient.end_color)
      if self.background.gradient.direction == "horizontal": ...
      elif self.background.gradient.direction == "vertical": ...
      else: ...
      gradient_layer = self._apply_background_corrections(gradient_layer)
      return gradient_layer
  \<close>
\<close>

definition gradient_layer_of :: "env \<Rightarrow> designer \<Rightarrow> error + image" where
  "gradient_layer_of E self =
     (let w = base_width self; h = base_height self; g = gradient (background self);
          gradient_layer = New w h (0, 0, 0, 0) in
      bind_err (hex_to_rgba E (start_color g) (Finite 1)) (\<lambda>start.
      bind_err (hex_to_rgba E (end_color g) (Finite 1)) (\<lambda>end'.
      if direction g = ''horizontal''
        then gradient_columns start end' w h [0..w - 1] gradient_layer
      else if direction g = ''vertical''
        then gradient_rows start end' w h [0..h - 1] gradient_layer
      else gradient_pixels start end' w h (canvas_pixels w h) gradient_layer)))"

definition render_gradient_background :: "env \<Rightarrow> designer \<Rightarrow> error + image" where
  "render_gradient_background E self =
     bind_err (gradient_layer_of E self) (\<lambda>gradient_layer.
     Inr (apply_background_corrections self gradient_layer))"

text \<open>
  The pixel a sequence of \<open>draw.point\<close> calls leaves at a position of a fresh image: a
  point replaces the pixel it names. Other calls are not read.
\<close>

fun getpixel :: "image \<Rightarrow> int \<times> int \<Rightarrow> rgba option" where
  "getpixel (New w h c) (x, y) = (if 0 \<le> x \<and> x < w \<and> 0 \<le> y \<and> y < h then Some c else None)"
| "getpixel (Draw (Point p c) img) q =
     (case getpixel img q of None \<Rightarrow> None | Some c0 \<Rightarrow> Some (if p = q then c else c0))"
| "getpixel img q = None"

text \<open>
  \<^verbatim>\<open>
  def _render_image_background(self):
      base = Image.new("RGBA", (self.base_width, self.base_height), self.background.solid_color)
      if not self.background.image_path or not Path(self.background.image_path).exists():
          return base
      try:
          img = Image.open(self.background.image_path).convert("RGBA")
      except OSError:
          return base
      img = ImageOps.fit(img, (self.base_width, self.base_height), Image.LANCZOS)
      if self.background.blur_radius > 0:
          img = img.filter(ImageFilter.GaussianBlur(self.background.blur_radius))
      img = self._apply_background_corrections(img)
      base = Image.alpha_composite(base, img)
      return base
  \<close>
  \<open>not image_path\<close> holds for \<open>None\<close> and for the empty string; only otherwise is the
  existence of the file tested, outside the \<open>try\<close>, so that an exception of the test
  reaches the caller. The \<open>try\<close> holds the opening and the conversion of the image.
\<close>

definition render_image_background :: "env \<Rightarrow> designer \<Rightarrow> error + image" where
  "render_image_background E self =
     (let bg = background self in
      bind_err (image_new E (base_width self) (base_height self) (solid_color bg)) (\<lambda>base.
      case bg_image_path bg of
        None \<Rightarrow> Inr base
      | Some path \<Rightarrow>
          if path = [] then Inr base
          else bind_err (path_exists E path) (\<lambda>found.
            if \<not> found then Inr base
            else (case image_open E path of
                    Inl e \<Rightarrow> (if is_OSError e then Inr base else Inl e)
                  | Inr img \<Rightarrow>
                      (let img = Fit (base_width self) (base_height self) img;
                           img = (if flt (Finite 0) (bg_blur_radius bg)
                                  then GaussianBlur (bg_blur_radius bg) img else img);
                           img = apply_background_corrections self img
                       in Inr (AlphaComposite base img))))))"

text \<open>
  The channels of a colour as the sequence the source indexes (\<open>start[i]\<close>), a colour
  whose channels are bytes (as the colour parser returns for \<open>#rrggbb\<close>), and the pixel of
  the image a renderer returned, if it returned one.
\<close>

fun channels :: "rgba \<Rightarrow> int list" where
  "channels (r, g, b, a) = [r, g, b, a]"

definition byte_color :: "rgba \<Rightarrow> bool" where
  "byte_color c = list_all (\<lambda>v. 0 \<le> v \<and> v \<le> 255) (channels c)"

definition pixel_of :: "error + image \<Rightarrow> int \<times> int \<Rightarrow> rgba option" where
  "pixel_of result p = (case result of Inl e \<Rightarrow> None | Inr img \<Rightarrow> getpixel img p)"

section \<open>Text renderer\<close>

text \<open>
  Python strings are modelled as \<open>string\<close>. \<open>sep.join(parts)\<close> puts \<open>sep\<close> between
  consecutive parts, \<open>list(text)\<close> is the list of the one-character strings of \<open>text\<close>,
  and \<open>s * n\<close> repeats \<open>s\<close>, giving the empty string when \<open>n \<le> 0\<close>.
\<close>

fun join :: "string \<Rightarrow> string list \<Rightarrow> string" where
  "join sep [] = []"
| "join sep [x] = x"
| "join sep (x # y # ys) = x @ sep @ join sep (y # ys)"

definition list_of_str :: "string \<Rightarrow> string list" where
  "list_of_str text = map (\<lambda>c. [c]) text"

definition str_mul :: "string \<Rightarrow> int \<Rightarrow> string" where
  "str_mul s n = concat (replicate (nat n) s)"

text \<open>
  \<^verbatim>\<open>
  def _apply_tracking(self, text, tracking):
      if tracking == 0:
          return text
      return (" " * max(0, tracking // 20)).join(list(text))
  \<close>
\<close>

definition apply_tracking :: "string \<Rightarrow> int \<Rightarrow> string" where
  "apply_tracking text tracking =
     (if tracking = 0 then text
      else join (str_mul '' '' (max 0 (tracking div 20))) (list_of_str text))"

text \<open>The number of spaces that end up between two neighbouring characters.\<close>

definition tracking_gap :: "int \<Rightarrow> nat" where
  "tracking_gap tracking = nat (max 0 (tracking div 20))"

text \<open>
  The whitespace of \<open>str.strip()\<close> and \<open>str.split()\<close> among the characters of \<open>string\<close>:
  tab to carriage return, the four separators \<open>0x1c\<close> to \<open>0x1f\<close>, the space, \<open>0x85\<close> and
  \<open>0xa0\<close>.
\<close>

definition isspace :: "char \<Rightarrow> bool" where
  "isspace c = (of_char c \<in> set [9, 10, 11, 12, 13, 28, 29, 30, 31, 32, 133, 160 :: nat])"

definition lstrip :: "string \<Rightarrow> string" where
  "lstrip s = dropWhile isspace s"

definition rstrip :: "string \<Rightarrow> string" where
  "rstrip s = rev (dropWhile isspace (rev s))"

definition strip :: "string \<Rightarrow> string" where
  "strip s = rstrip (lstrip s)"

text \<open>
  \<open>split_on P s\<close> cuts \<open>s\<close> at every character satisfying \<open>P\<close>, keeping the empty pieces:
  \<open>line.split(" ")\<close> is \<open>split_on\<close> at the space. \<open>s.split()\<close>, the whitespace-separated
  words of \<open>s\<close>, cuts at whitespace and drops the empty pieces.
\<close>

fun split_on :: "(char \<Rightarrow> bool) \<Rightarrow> string \<Rightarrow> string list" where
  "split_on P [] = [[]]"
| "split_on P (c # cs) =
     (if P c then [] # split_on P cs
      else (case split_on P cs of [] \<Rightarrow> [[c]] | w # ws \<Rightarrow> (c # w) # ws))"

definition split_space :: "string \<Rightarrow> string list" where
  "split_space line = split_on (\<lambda>c. c = CHR '' '') line"

definition py_words :: "string \<Rightarrow> string list" where
  "py_words s = filter (\<lambda>w. w \<noteq> []) (split_on isspace s)"

text \<open>
  \<open>text.splitlines()\<close>: the lines of a text without their line breaks; a carriage return
  followed by a line feed is one break, and a break at the very end opens no further
  line.
\<close>

definition is_linebreak :: "char \<Rightarrow> bool" where
  "is_linebreak c = (of_char c \<in> set [10, 11, 12, 13, 28, 29, 30, 133 :: nat])"

fun splitlines_from :: "string \<Rightarrow> string \<Rightarrow> string list" where
  "splitlines_from cur [] = (if cur = [] then [] else [cur])"
| "splitlines_from cur [c] = (if is_linebreak c then [cur] else [cur @ [c]])"
| "splitlines_from cur (c # d # cs) =
     (if of_char c = (13 :: nat) \<and> of_char d = (10 :: nat) then cur # splitlines_from [] cs
      else if is_linebreak c then cur # splitlines_from [] (d # cs)
      else splitlines_from (cur @ [c]) (d # cs))"

definition splitlines :: "string \<Rightarrow> string list" where
  "splitlines text = splitlines_from [] text"

text \<open>
  The wrapping loop of \<open>_render_text_layer\<close>:
  \<^verbatim>\<open>
      for line in lines:
          if not line.strip():
              rendered_lines.append("")
              continue
          words = line.split(" ")
          current_line = ""
          for word in words:
              attempt = f"{current_line} {word}".strip()
              bbox = font.getbbox(self._apply_tracking(attempt, layer.tracking))
              width = bbox[2] - bbox[0]
              if width <= max_width_pixels:
                  current_line = attempt
              else:
                  if current_line:
                      rendered_lines.append(current_line)
                  current_line = word
          rendered_lines.append(current_line)
  \<close>
  \<open>bbox_of\<close> is the font's \<open>getbbox\<close>. \<open>line_fits\<close> is the test \<open>width <= max_width_pixels\<close>
  for a candidate line; \<open>wrap_words\<close> is the inner loop, returning the lines it appends,
  the last one included; \<open>wrap_line\<close> is one iteration of the outer loop.
\<close>

definition line_fits :: "(string \<Rightarrow> int \<times> int \<times> int \<times> int) \<Rightarrow> int \<Rightarrow> int \<Rightarrow> string \<Rightarrow> bool" where
  "line_fits bbox_of tracking max_width_pixels attempt =
     (case bbox_of (apply_tracking attempt tracking) of
        (x0, y0, x1, y1) \<Rightarrow> x1 - x0 \<le> max_width_pixels)"

fun wrap_words ::
  "(string \<Rightarrow> int \<times> int \<times> int \<times> int) \<Rightarrow> int \<Rightarrow> int \<Rightarrow> string \<Rightarrow> string list \<Rightarrow> string list" where
  "wrap_words bbox_of tracking max_width_pixels current_line [] = [current_line]"
| "wrap_words bbox_of tracking max_width_pixels current_line (word # words) =
     (let attempt = strip (current_line @ '' '' @ word) in
      if line_fits bbox_of tracking max_width_pixels attempt
      then wrap_words bbox_of tracking max_width_pixels attempt words
      else (if current_line \<noteq> [] then [current_line] else [])
           @ wrap_words bbox_of tracking max_width_pixels word words)"

definition wrap_line ::
  "(string \<Rightarrow> int \<times> int \<times> int \<times> int) \<Rightarrow> int \<Rightarrow> int \<Rightarrow> string \<Rightarrow> string list" where
  "wrap_line bbox_of tracking max_width_pixels line =
     (if strip line = [] then [[]]
      else wrap_words bbox_of tracking max_width_pixels [] (split_space line))"

definition wrap_lines ::
  "(string \<Rightarrow> int \<times> int \<times> int \<times> int) \<Rightarrow> int \<Rightarrow> int \<Rightarrow> string list \<Rightarrow> string list" where
  "wrap_lines bbox_of tracking max_width_pixels lines =
     concat (map (wrap_line bbox_of tracking max_width_pixels) lines)"


text \<open>
  \<^verbatim>\<open>
  def ensure_font_path(font_file):
      font_path = FONTS_DIR / font_file
      if not font_path.exists():
          raise FileNotFoundError(f"Missing font file: {font_path}")
      return font_path
  \<close>
\<close>

definition fonts_dir :: string where
  "fonts_dir = ''assets/fonts''"

definition ensure_font_path :: "env \<Rightarrow> string \<Rightarrow> error + string" where
  "ensure_font_path E font_file =
     (let font_path = fonts_dir @ ''/'' @ font_file in
      if \<not> font_exists E font_file then Inl FileNotFoundError else Inr font_path)"

text \<open>
  \<^verbatim>\<open>
  def _render_text_layer(self, layer):
      temp = Image.new("RGBA", (self.base_width, self.base_height), (0, 0, 0, 0))
      draw = ImageDraw.Draw(temp)
      font_path = ensure_font_path(layer.font_file)
      font = ImageFont.truetype(str(font_path), size=layer.font_size)
      lines = layer.text.splitlines()
      max_width_pixels = int(self.base_width * layer.max_width)
      rendered_lines = []
      for line in lines: ...
      # placement, shadow, stroke and rotation of rendered_lines
      temp = Image.alpha_composite(temp, text_image)
      return temp
  \<close>
\<close>

definition render_text_layer :: "env \<Rightarrow> designer \<Rightarrow> text_layer \<Rightarrow> error + image" where
  "render_text_layer E self layer =
     (let temp = New (base_width self) (base_height self) (0, 0, 0, 0) in
      bind_err (ensure_font_path E (text_font_file layer)) (\<lambda>font_path.
      bind_err (truetype E font_path (text_font_size layer)) (\<lambda>font.
      let lines = splitlines (text_text layer) in
      bind_err (scaled_int (base_width self) (text_max_width layer)) (\<lambda>max_width_pixels.
      let rendered_lines =
            wrap_lines (getbbox E font) (text_tracking layer) max_width_pixels lines in
      bind_err (draw_lines E (base_width self) (base_height self) layer font rendered_lines)
        (\<lambda>text_image.
      Inr (AlphaComposite temp text_image))))))"

section \<open>Compositor\<close>

text \<open>
  \<^verbatim>\<open>
  def render_thumbnail(self):
      base_image = Image.new("RGBA", (self.base_width, self.base_height), "#111111")
      if self.background.mode == "solid":
          background_layer = Image.new("RGBA", (...), self.background.solid_color)
      elif self.background.mode == "gradient":
          background_layer = self._render_gradient_background()
      else:
          background_layer = self._render_image_background()
      base_image = Image.alpha_composite(base_image, background_layer)
      for layer_type, layer_id in self.layer_order:
          if layer_type == "overlay":
              layer = next((o for o in self.overlay_layers if o.id == layer_id), None)
              if layer:
                  base_image = Image.alpha_composite(base_image, self._render_overlay_layer(layer))
          elif layer_type == "image":
              layer = next((i for i in self.image_layers if i.id == layer_id), None)
              if layer and layer.image_path:
                  base_image = Image.alpha_composite(base_image, self._render_image_layer(layer))
          elif layer_type == "text":
              layer = next((t for t in self.text_layers if t.id == layer_id), None)
              if layer:
                  base_image = Image.alpha_composite(base_image, self._render_text_layer(layer))
      self.latest_image = base_image
      ...
  \<close>
  \<open>composite_entry\<close> is the body of the loop, \<open>composite_layers\<close> the loop; the result of
  \<open>render_thumbnail\<close> is \<open>latest_image\<close>, or the exception a renderer raised.
\<close>

definition composite_entry :: "env \<Rightarrow> designer \<Rightarrow> image \<Rightarrow> string \<times> string \<Rightarrow> error + image" where
  "composite_entry E self base_image entry =
     (case entry of (layer_type, layer_id) \<Rightarrow>
      if layer_type = ''overlay'' then
        (case find (\<lambda>ov. overlay_id ov = layer_id) (overlay_layers self) of
           None \<Rightarrow> Inr base_image
         | Some layer \<Rightarrow>
             bind_err (render_overlay_layer E self layer) (\<lambda>rendered.
             Inr (AlphaComposite base_image rendered)))
      else if layer_type = ''image'' then
        (case find (\<lambda>i. image_id i = layer_id) (image_layers self) of
           None \<Rightarrow> Inr base_image
         | Some layer \<Rightarrow>
             if image_image_path layer \<noteq> None \<and> image_image_path layer \<noteq> Some []
             then bind_err (render_image_layer E (base_width self) (base_height self) layer)
                    (\<lambda>rendered. Inr (AlphaComposite base_image rendered))
             else Inr base_image)
      else if layer_type = ''text'' then
        (case find (\<lambda>t. text_id t = layer_id) (text_layers self) of
           None \<Rightarrow> Inr base_image
         | Some layer \<Rightarrow>
             bind_err (render_text_layer E self layer) (\<lambda>rendered.
             Inr (AlphaComposite base_image rendered)))
      else Inr base_image)"

fun composite_layers :: "env \<Rightarrow> designer \<Rightarrow> (string \<times> string) list \<Rightarrow> image \<Rightarrow> error + image" where
  "composite_layers E self [] base_image = Inr base_image"
| "composite_layers E self (entry # entries) base_image =
     bind_err (composite_entry E self base_image entry) (composite_layers E self entries)"

definition background_layer_of :: "env \<Rightarrow> designer \<Rightarrow> error + image" where
  "background_layer_of E self =
     (if bg_mode (background self) = ''solid''
        then image_new E (base_width self) (base_height self) (solid_color (background self))
      else if bg_mode (background self) = ''gradient'' then render_gradient_background E self
      else render_image_background E self)"

definition render_thumbnail :: "env \<Rightarrow> designer \<Rightarrow> error + image" where
  "render_thumbnail E self =
     bind_err (image_new E (base_width self) (base_height self) ''#111111'') (\<lambda>base_image.
     bind_err (background_layer_of E self) (\<lambda>background_layer.
     composite_layers E self (layer_order self) (AlphaComposite base_image background_layer)))"

text \<open>
  A layer-order entry resolves when a layer of its type has its id; an entry that does
  not is stale.
\<close>

definition resolves :: "designer \<Rightarrow> string \<times> string \<Rightarrow> bool" where
  "resolves self entry =
     (case entry of (layer_type, layer_id) \<Rightarrow>
        (layer_type = ''overlay'' \<and> layer_id \<in> overlay_id ` set (overlay_layers self)) \<or>
        (layer_type = ''image'' \<and> layer_id \<in> image_id ` set (image_layers self)) \<or>
        (layer_type = ''text'' \<and> layer_id \<in> text_id ` set (text_layers self)))"

section \<open>Duplicating a layer\<close>

text \<open>
  \<^verbatim>\<open>
  def _get_current_text(self):
      if not self.current_text_id:
          return None
      for layer in self.text_layers:
          if layer.id == self.current_text_id:
              return layer
      return None

  def _duplicate_text_layer(self):
      current = self._get_current_text()
      if not current:
          return
      clone = create_text_layer(asdict(current))
      clone.id = str(uuid.uuid4())
      clone.label = f"{current.label} (copy)"
      self.text_layers.append(clone)
      self.text_list.insert(tk.END, clone.label)
      self.layer_order.append(("text", clone.id))
      self._select_text_layer(clone.id)
      self._refresh_layer_tree()
      self.render_thumbnail()
  \<close>
  and the same for image and overlay layers. \<open>asdict\<close> followed by \<open>create_text_layer\<close>
  rebuilds the dataclass, and its nested shadow and stroke, from its own field values: a
  deep copy, which for a value of HOL is the value. The id that \<open>uuid.uuid4()\<close> returns
  is an argument. The result is the state after \<open>_select_text_layer\<close>; the widgets and the
  rendering that follows do not change it.
\<close>

definition create_text_layer_asdict :: "text_layer \<Rightarrow> text_layer" where
  "create_text_layer_asdict current =
     \<lparr>text_id = text_id current, text_label = text_label current, text_text = text_text current,
      text_font_file = text_font_file current, text_font_size = text_font_size current,
      text_color = text_color current, text_align = text_align current,
      text_position_x = text_position_x current, text_position_y = text_position_y current,
      text_max_width = text_max_width current, text_tracking = text_tracking current,
      text_rotation = text_rotation current,
      text_shadow =
        \<lparr>shadow_enabled = shadow_enabled (text_shadow current),
         shadow_offset_x = shadow_offset_x (text_shadow current),
         shadow_offset_y = shadow_offset_y (text_shadow current),
         shadow_blur_radius = shadow_blur_radius (text_shadow current),
         shadow_color = shadow_color (text_shadow current),
         shadow_opacity = shadow_opacity (text_shadow current)\<rparr>,
      text_stroke =
        \<lparr>stroke_width = stroke_width (text_stroke current),
         stroke_color = stroke_color (text_stroke current)\<rparr>\<rparr>"

definition create_image_layer_asdict :: "image_layer \<Rightarrow> image_layer" where
  "create_image_layer_asdict layer =
     \<lparr>image_id = image_id layer, image_label = image_label layer,
      image_image_path = image_image_path layer, image_scale = image_scale layer,
      image_rotation = image_rotation layer, image_position_x = image_position_x layer,
      image_position_y = image_position_y layer, image_opacity = image_opacity layer,
      image_flip_horizontal = image_flip_horizontal layer,
      image_flip_vertical = image_flip_vertical layer,
      image_add_shadow = image_add_shadow layer, image_shadow_blur = image_shadow_blur layer,
      image_shadow_offset_x = image_shadow_offset_x layer,
      image_shadow_offset_y = image_shadow_offset_y layer,
      image_shadow_opacity = image_shadow_opacity layer\<rparr>"

definition create_overlay_layer_asdict :: "overlay_layer \<Rightarrow> overlay_layer" where
  "create_overlay_layer_asdict layer =
     \<lparr>overlay_id = overlay_id layer, overlay_label = overlay_label layer,
      overlay_mode = overlay_mode layer, overlay_color = overlay_color layer,
      overlay_opacity = overlay_opacity layer, overlay_position_x = overlay_position_x layer,
      overlay_position_y = overlay_position_y layer, overlay_width = overlay_width layer,
      overlay_height = overlay_height layer, overlay_blur_radius = overlay_blur_radius layer,
      overlay_rotation = overlay_rotation layer, overlay_rounded = overlay_rounded layer\<rparr>"

definition truthy_id :: "string option \<Rightarrow> string option" where
  "truthy_id i = (case i of None \<Rightarrow> None | Some s \<Rightarrow> if s = [] then None else Some s)"

definition get_current_text :: "designer \<Rightarrow> text_layer option" where
  "get_current_text self =
     (case truthy_id (current_text_id self) of
        None \<Rightarrow> None
      | Some i \<Rightarrow> find (\<lambda>layer. text_id layer = i) (text_layers self))"

definition get_current_image :: "designer \<Rightarrow> image_layer option" where
  "get_current_image self =
     (case truthy_id (current_image_id self) of
        None \<Rightarrow> None
      | Some i \<Rightarrow> find (\<lambda>layer. image_id layer = i) (image_layers self))"

definition get_current_overlay :: "designer \<Rightarrow> overlay_layer option" where
  "get_current_overlay self =
     (case truthy_id (current_overlay_id self) of
        None \<Rightarrow> None
      | Some i \<Rightarrow> find (\<lambda>layer. overlay_id layer = i) (overlay_layers self))"

definition duplicate_text_layer :: "string \<Rightarrow> designer \<Rightarrow> designer" where
  "duplicate_text_layer uuid4 self =
     (case get_current_text self of
        None \<Rightarrow> self
      | Some current \<Rightarrow>
          let clone = create_text_layer_asdict current;
              clone = clone\<lparr>text_id := uuid4\<rparr>;
              clone = clone\<lparr>text_label := text_label current @ '' (copy)''\<rparr>
          in self\<lparr>text_layers := text_layers self @ [clone],
                  layer_order := layer_order self @ [(''text'', text_id clone)],
                  current_text_id := Some (text_id clone)\<rparr>)"

definition duplicate_image_layer :: "string \<Rightarrow> designer \<Rightarrow> designer" where
  "duplicate_image_layer uuid4 self =
     (case get_current_image self of
        None \<Rightarrow> self
      | Some layer \<Rightarrow>
          let clone = create_image_layer_asdict layer;
              clone = clone\<lparr>image_id := uuid4\<rparr>;
              clone = clone\<lparr>image_label := image_label layer @ '' (copy)''\<rparr>
          in self\<lparr>image_layers := image_layers self @ [clone],
                  layer_order := layer_order self @ [(''image'', image_id clone)],
                  current_image_id := Some (image_id clone)\<rparr>)"

definition duplicate_overlay_layer :: "string \<Rightarrow> designer \<Rightarrow> designer" where
  "duplicate_overlay_layer uuid4 self =
     (case get_current_overlay self of
        None \<Rightarrow> self
      | Some layer \<Rightarrow>
          let clone = create_overlay_layer_asdict layer;
              clone = clone\<lparr>overlay_id := uuid4\<rparr>;
              clone = clone\<lparr>overlay_label := overlay_label layer @ '' (copy)''\<rparr>
          in self\<lparr>overlay_layers := overlay_layers self @ [clone],
                  layer_order := layer_order self @ [(''overlay'', overlay_id clone)],
                  current_overlay_id := Some (overlay_id clone)\<rparr>)"

section \<open>Default values\<close>

text \<open>
  The field defaults of the dataclasses (the id is generated, so it is an argument), the
  banner that \<open>_add_default_layers\<close> creates, and the state \<open>__init__\<close> sets up before it
  adds layers.
\<close>

definition default_shadow :: shadow_settings where
  "default_shadow =
     \<lparr>shadow_enabled = True, shadow_offset_x = 6, shadow_offset_y = 6, shadow_blur_radius = 12,
      shadow_color = ''#000000'', shadow_opacity = float_lit (6 / 10)\<rparr>"

definition default_stroke :: stroke_settings where
  "default_stroke = \<lparr>stroke_width = 6, stroke_color = ''#ffffff''\<rparr>"

definition default_text_layer :: "string \<Rightarrow> text_layer" where
  "default_text_layer uuid4 =
     \<lparr>text_id = uuid4, text_label = ''Judul Utama'', text_text = ''Judul Thumbnail Menarik'',
      text_font_file = ''Montserrat-ExtraBold.ttf'', text_font_size = 150,
      text_color = ''#ffffff'', text_align = ''center'',
      text_position_x = float_lit (5 / 10), text_position_y = float_lit (35 / 100),
      text_max_width = float_lit (9 / 10), text_tracking = 0, text_rotation = float_lit 0,
      text_shadow = default_shadow, text_stroke = default_stroke\<rparr>"

definition default_image_layer :: "string \<Rightarrow> image_layer" where
  "default_image_layer uuid4 =
     \<lparr>image_id = uuid4, image_label = ''Gambar'', image_image_path = None,
      image_scale = float_lit 1, image_rotation = float_lit 0,
      image_position_x = float_lit (75 / 100), image_position_y = float_lit (65 / 100),
      image_opacity = float_lit 1, image_flip_horizontal = False,
      image_flip_vertical = False, image_add_shadow = True, image_shadow_blur = 24,
      image_shadow_offset_x = 0, image_shadow_offset_y = 12,
      image_shadow_opacity = float_lit (7 / 10)\<rparr>"

definition default_overlay_layer :: "string \<Rightarrow> overlay_layer" where
  "default_overlay_layer uuid4 =
     \<lparr>overlay_id = uuid4, overlay_label = ''Highlight'', overlay_mode = ''rectangle'',
      overlay_color = ''#ff3838'', overlay_opacity = float_lit (85 / 100),
      overlay_position_x = float_lit (5 / 10), overlay_position_y = float_lit (3 / 10),
      overlay_width = float_lit (8 / 10), overlay_height = float_lit (25 / 100),
      overlay_blur_radius = 0, overlay_rotation = float_lit 0, overlay_rounded = 40\<rparr>"

definition default_banner :: "string \<Rightarrow> overlay_layer" where
  "default_banner uuid4 =
     (default_overlay_layer uuid4)
       \<lparr>overlay_label := ''Banner'', overlay_mode := ''banner'', overlay_color := ''#ff3838'',
        overlay_opacity := float_lit (88 / 100), overlay_position_x := float_lit (5 / 10),
        overlay_position_y := float_lit (6 / 10), overlay_width := float_lit (9 / 10),
        overlay_height := float_lit (3 / 10), overlay_rotation := Finite (- 2)\<rparr>"

definition default_background :: background_settings where
  "default_background =
     \<lparr>bg_mode = ''solid'', solid_color = ''#202020'',
      gradient = \<lparr>start_color = ''#ff3838'', end_color = ''#ffcf00'', direction = ''horizontal''\<rparr>,
      bg_image_path = None, bg_blur_radius = float_lit 0, brightness = float_lit 1,
      contrast = float_lit 1, saturation = float_lit 1\<rparr>"

definition init_designer :: designer where
  "init_designer =
     \<lparr>base_width = 1280, base_height = 720, background = default_background,
      text_layers = [], image_layers = [], overlay_layers = [],
      current_text_id = None, current_image_id = None, current_overlay_id = None,
      layer_order = []\<rparr>"

text \<open>
  A scene with one default layer of each type, each selected as the current one, in the
  paint order overlay, image, text.
\<close>

definition example_designer :: designer where
  "example_designer =
     init_designer
       \<lparr>text_layers := [default_text_layer ''t1''],
        image_layers := [default_image_layer ''i1''],
        overlay_layers := [default_overlay_layer ''o1''],
        current_text_id := Some ''t1'', current_image_id := Some ''i1'',
        current_overlay_id := Some ''o1'',
        layer_order := [(''overlay'', ''o1''), (''image'', ''i1''), (''text'', ''t1'')]\<rparr>"

text \<open>
  An outside world for examples: colours written \<open>#rrggbb\<close> parse and nothing else does;
  no image file exists; the only font file is the default one, it loads, and every
  character is 10 pixels wide and high; the image-layer renderer and the line drawing
  return a transparent canvas.
\<close>

definition hex_digit :: "char \<Rightarrow> int option" where
  "hex_digit c =
     (let n = int (of_char c) in
      if 48 \<le> n \<and> n \<le> 57 then Some (n - 48)
      else if 97 \<le> n \<and> n \<le> 102 then Some (n - 87)
      else if 65 \<le> n \<and> n \<le> 70 then Some (n - 55)
      else None)"

definition hex_byte :: "char \<Rightarrow> char \<Rightarrow> int option" where
  "hex_byte a b =
     (case (hex_digit a, hex_digit b) of (Some h, Some l) \<Rightarrow> Some (16 * h + l) | _ \<Rightarrow> None)"

definition example_getrgb :: "string \<Rightarrow> error + rgba" where
  "example_getrgb s =
     (case s of
        [h, r1, r0, g1, g0, b1, b0] \<Rightarrow>
          (case (hex_byte r1 r0, hex_byte g1 g0, hex_byte b1 b0) of
             (Some r, Some g, Some b) \<Rightarrow>
               if h = CHR ''#'' then Inr (r, g, b, 255) else Inl ValueError
           | _ \<Rightarrow> Inl ValueError)
      | _ \<Rightarrow> Inl ValueError)"

definition example_bbox :: "string \<Rightarrow> int \<times> int \<times> int \<times> int" where
  "example_bbox s = (0, 0, 10 * int (length s), 10)"

definition example_env :: env where
  "example_env =
     \<lparr>getrgb = example_getrgb,
      path_exists = (\<lambda>p. Inr False),
      font_exists = (\<lambda>f. f = ''Montserrat-ExtraBold.ttf''),
      truetype = (\<lambda>p n. Inr (FreeTypeFont p n)),
      getbbox = (\<lambda>f. example_bbox),
      image_open = (\<lambda>p. Inl OSError),
      render_image_layer = (\<lambda>w h l. Inr (New w h (0, 0, 0, 0))),
      draw_lines = (\<lambda>w h l f ls. Inr (New w h (0, 0, 0, 0)))\<rparr>"

text \<open>
  Two more file systems: one that refuses a name of more than 255 characters, so that
  the existence test raises \<open>OSError\<close> for it, and one where every file is there but
  may not be read.
\<close>

definition long_name_env :: env where
  "long_name_env =
     example_env\<lparr>path_exists := \<lambda>p. if 255 < length p then Inl OSError else Inr False\<rparr>"

definition locked_file_env :: env where
  "locked_file_env =
     example_env\<lparr>path_exists := \<lambda>p. Inr True, image_open := \<lambda>p. Inl PermissionError\<rparr>"

text \<open>The initial state with a diagonal gradient between two colours as its background.\<close>

definition diagonal_designer :: "string \<Rightarrow> string \<Rightarrow> designer" where
  "diagonal_designer c0 c1 =
     init_designer
       \<lparr>background := default_background
          \<lparr>bg_mode := ''gradient'',
           gradient := \<lparr>start_color = c0, end_color = c1, direction = ''diagonal''\<rparr>\<rparr>\<rparr>"

section \<open>Tracking: properties\<close>

lemma str_mul_space: "str_mul '' '' n = replicate (nat n) CHR '' ''"
  by (induction "nat n" arbitrary: n) (auto simp: str_mul_def)

lemma join_empty_sep: "join [] (list_of_str s) = s"
  by (induction s rule: induct_list012) (simp_all add: list_of_str_def)

lemma join_chars_length:
  "length (join (replicate g c) (list_of_str s)) = length s + (length s - 1) * g"
  by (induction s rule: induct_list012) (simp_all add: list_of_str_def)

lemma join_chars_nth:
  "j < length s + (length s - 1) * g \<Longrightarrow>
   join (replicate g c) (list_of_str s) ! j =
     (if j mod (g + 1) = 0 then s ! (j div (g + 1)) else c)"
proof (induction s arbitrary: j rule: induct_list012)
  case 1
  then show ?case by simp
next
  case (2 x)
  then show ?case by (simp add: list_of_str_def)
next
  case (3 x y zs)
  let ?rest = "join (replicate g c) (list_of_str (y # zs))"
  have unfold: "join (replicate g c) (list_of_str (x # y # zs)) = x # replicate g c @ ?rest"
    by (simp add: list_of_str_def)
  show ?case
  proof (cases "j < g + 1")
    case True
    then show ?thesis
      unfolding unfold by (cases j) (auto simp: nth_append)
  next
    case False
    define k where "k = j - (g + 1)"
    have j: "j = k + (g + 1)" using False by (simp add: k_def)
    have k_lt: "k < length (y # zs) + (length (y # zs) - 1) * g"
      using "3.prems" by (simp add: j)
    have "(x # replicate g c @ ?rest) ! j = ?rest ! k"
      by (simp add: j nth_append)
    also have "\<dots> = (if k mod (g + 1) = 0 then (y # zs) ! (k div (g + 1)) else c)"
      by (rule "3.IH"(2) [OF k_lt])
    also have "\<dots> = (if j mod (g + 1) = 0 then (x # y # zs) ! (j div (g + 1)) else c)"
    proof -
      have m: "j mod (g + 1) = k mod (g + 1)"
        unfolding j by (rule mod_add_self2)
      have d: "j div (g + 1) = Suc (k div (g + 1))"
        unfolding j by (simp del: add_Suc_right One_nat_def)
      show ?thesis unfolding m d by simp
    qed
    finally show ?thesis unfolding unfold .
  qed
qed

lemma apply_tracking_join:
  "apply_tracking s tracking =
     join (replicate (tracking_gap tracking) CHR '' '') (list_of_str s)"
proof (cases "tracking = 0")
  case True
  then show ?thesis
    by (simp add: apply_tracking_def tracking_gap_def join_empty_sep)
next
  case False
  then show ?thesis
    by (simp add: apply_tracking_def tracking_gap_def str_mul_space)
qed

lemma apply_tracking_small: "tracking < 20 \<Longrightarrow> apply_tracking s tracking = s"
proof -
  assume "tracking < 20"
  then have "tracking div 20 \<le> 0" by simp
  then have "tracking_gap tracking = 0" by (simp add: tracking_gap_def)
  then show ?thesis by (simp add: apply_tracking_join join_empty_sep)
qed

section \<open>Claim C5: tracking inserts spaces between neighbouring characters\<close>

text \<open>
  C5 as stated: for a non-zero tracking value exactly \<open>floor(tracking/20)\<close> spaces are
  inserted between every pair of characters. At tracking \<open>-40\<close> (the lower end of the
  tracking slider) the floor is \<open>-2\<close>, but the line \<open>ab\<close> comes back unchanged: the
  number of characters added is \<open>0\<close>, not \<open>-2\<close> for its one pair of characters.
\<close>

theorem apply_tracking_negative_counterexample:
  "apply_tracking ''ab'' (- 40) = ''ab'' \<and>
   int (length (apply_tracking ''ab'' (- 40))) - int (length ''ab'')
     \<noteq> (int (length ''ab'') - 1) * ((- 40) div 20)"
  by (simp add: apply_tracking_def str_mul_def list_of_str_def)

text \<open>
  C5 (amended): the number of spaces between two neighbouring characters is
  \<open>max(0, floor(tracking/20))\<close>. With \<open>g\<close> this number, the tracked line has the
  characters of the line at the positions \<open>0, g+1, 2(g+1), \<dots>\<close> in their order, a space
  at every other position, and no further character; tracking \<open>0\<close>, and every tracking
  below \<open>20\<close>, returns the line unchanged.
\<close>

theorem apply_tracking_spaces:
  "(tracking = 0 \<longrightarrow> apply_tracking s tracking = s) \<and>
   (tracking < 20 \<longrightarrow> apply_tracking s tracking = s) \<and>
   tracking_gap tracking = nat (max 0 (tracking div 20)) \<and>
   length (apply_tracking s tracking) = length s + (length s - 1) * tracking_gap tracking \<and>
   (\<forall>j < length (apply_tracking s tracking).
      apply_tracking s tracking ! j =
        (if j mod (tracking_gap tracking + 1) = 0
         then s ! (j div (tracking_gap tracking + 1)) else CHR '' ''))"
proof -
  let ?g = "tracking_gap tracking"
  have len: "length (apply_tracking s tracking) = length s + (length s - 1) * ?g"
    by (simp add: apply_tracking_join join_chars_length)
  have nth: "\<forall>j < length (apply_tracking s tracking).
      apply_tracking s tracking ! j =
        (if j mod (?g + 1) = 0 then s ! (j div (?g + 1)) else CHR '' '')"
    unfolding len by (simp add: apply_tracking_join join_chars_nth)
  have zero: "tracking = 0 \<longrightarrow> apply_tracking s tracking = s"
    by (simp add: apply_tracking_def)
  show ?thesis
    using zero apply_tracking_small [of tracking s] len nth by (simp add: tracking_gap_def)
qed

theorem apply_tracking_spaces_witness:
  "apply_tracking ''ab'' 0 = ''ab'' \<and> apply_tracking ''ab'' (- 40) = ''ab'' \<and>
   length (apply_tracking ''ab'' 45) = 4 \<and>
   apply_tracking ''ab'' 45 ! 0 = CHR ''a'' \<and> apply_tracking ''ab'' 45 ! 1 = CHR '' '' \<and>
   apply_tracking ''ab'' 45 ! 2 = CHR '' '' \<and> apply_tracking ''ab'' 45 ! 3 = CHR ''b''"
proof -
  have g: "tracking_gap 45 = 2" by (simp add: tracking_gap_def)
  have len: "length (apply_tracking ''ab'' 45) = 4"
    using apply_tracking_spaces [of 45 "''ab''"] by (simp add: g)
  have nth: "\<forall>j < 4. apply_tracking ''ab'' 45 ! j =
      (if j mod 3 = 0 then ''ab'' ! (j div 3) else CHR '' '')"
    using apply_tracking_spaces [of 45 "''ab''"] unfolding len g by simp
  have "apply_tracking ''ab'' 45 ! 0 = CHR ''a''" "apply_tracking ''ab'' 45 ! 1 = CHR '' ''"
    "apply_tracking ''ab'' 45 ! 2 = CHR '' ''" "apply_tracking ''ab'' 45 ! 3 = CHR ''b''"
    using nth by simp_all
  moreover have "apply_tracking ''ab'' 0 = ''ab''" "apply_tracking ''ab'' (- 40) = ''ab''"
    using apply_tracking_spaces [of 0 "''ab''"] apply_tracking_spaces [of "- 40" "''ab''"]
    by simp_all
  ultimately show ?thesis using len by simp
qed

section \<open>Claim C3: duplicating a layer\<close>

lemma create_text_layer_asdict_id: "create_text_layer_asdict l = l"
  by (simp add: create_text_layer_asdict_def)

lemma create_image_layer_asdict_id: "create_image_layer_asdict l = l"
  by (simp add: create_image_layer_asdict_def)

lemma create_overlay_layer_asdict_id: "create_overlay_layer_asdict l = l"
  by (simp add: create_overlay_layer_asdict_def)

text \<open>
  C3 as stated: every field of the duplicate but the id equals the original's. The
  duplicate of a default overlay layer is labelled \<open>Highlight (copy)\<close>, not \<open>Highlight\<close>.
\<close>

theorem duplicate_label_counterexample:
  "overlay_label (last (overlay_layers (duplicate_overlay_layer ''b''
      (init_designer\<lparr>overlay_layers := [default_overlay_layer ''a''],
                      current_overlay_id := Some ''a''\<rparr>)))) = ''Highlight (copy)'' \<and>
   overlay_label (default_overlay_layer ''a'') = ''Highlight''"
  by (simp add: duplicate_overlay_layer_def get_current_overlay_def truthy_id_def
      init_designer_def default_overlay_layer_def create_overlay_layer_asdict_def)

text \<open>
  C3 (amended): for a text, image or overlay layer that is the current one, duplicating
  appends one new layer to the layers of its type. Its id is the freshly generated one
  (distinct from the original's when the generator returns a different id), its label is
  the original's followed by \<open>(copy)\<close>, and every other field equals the original's. The
  new layer is appended to the layer order and becomes the current one.
\<close>

theorem duplicate_copies_fields:
  "(get_current_text self = Some t \<longrightarrow>
      text_layers (duplicate_text_layer u self) =
        text_layers self @ [t\<lparr>text_id := u, text_label := text_label t @ '' (copy)''\<rparr>] \<and>
      layer_order (duplicate_text_layer u self) = layer_order self @ [(''text'', u)] \<and>
      current_text_id (duplicate_text_layer u self) = Some u \<and>
      (u \<noteq> text_id t \<longrightarrow> text_id (last (text_layers (duplicate_text_layer u self))) \<noteq> text_id t)) \<and>
   (get_current_image self = Some i \<longrightarrow>
      image_layers (duplicate_image_layer u self) =
        image_layers self @ [i\<lparr>image_id := u, image_label := image_label i @ '' (copy)''\<rparr>] \<and>
      layer_order (duplicate_image_layer u self) = layer_order self @ [(''image'', u)] \<and>
      current_image_id (duplicate_image_layer u self) = Some u \<and>
      (u \<noteq> image_id i \<longrightarrow> image_id (last (image_layers (duplicate_image_layer u self))) \<noteq> image_id i)) \<and>
   (get_current_overlay self = Some ov \<longrightarrow>
      overlay_layers (duplicate_overlay_layer u self) =
        overlay_layers self @ [ov\<lparr>overlay_id := u, overlay_label := overlay_label ov @ '' (copy)''\<rparr>] \<and>
      layer_order (duplicate_overlay_layer u self) = layer_order self @ [(''overlay'', u)] \<and>
      current_overlay_id (duplicate_overlay_layer u self) = Some u \<and>
      (u \<noteq> overlay_id ov \<longrightarrow>
         overlay_id (last (overlay_layers (duplicate_overlay_layer u self))) \<noteq> overlay_id ov))"
proof (intro conjI impI)
  assume "get_current_text self = Some t"
  then have d: "duplicate_text_layer u self =
      self\<lparr>text_layers := text_layers self @ [t\<lparr>text_id := u, text_label := text_label t @ '' (copy)''\<rparr>],
           layer_order := layer_order self @ [(''text'', u)], current_text_id := Some u\<rparr>"
    by (simp add: duplicate_text_layer_def create_text_layer_asdict_id)
  show "text_layers (duplicate_text_layer u self) =
      text_layers self @ [t\<lparr>text_id := u, text_label := text_label t @ '' (copy)''\<rparr>]"
    and "layer_order (duplicate_text_layer u self) = layer_order self @ [(''text'', u)]"
    and "current_text_id (duplicate_text_layer u self) = Some u"
    by (simp_all add: d)
  show "text_id (last (text_layers (duplicate_text_layer u self))) \<noteq> text_id t"
    if "u \<noteq> text_id t" using that by (simp add: d)
next
  assume "get_current_image self = Some i"
  then have d: "duplicate_image_layer u self =
      self\<lparr>image_layers := image_layers self @ [i\<lparr>image_id := u, image_label := image_label i @ '' (copy)''\<rparr>],
           layer_order := layer_order self @ [(''image'', u)], current_image_id := Some u\<rparr>"
    by (simp add: duplicate_image_layer_def create_image_layer_asdict_id)
  show "image_layers (duplicate_image_layer u self) =
      image_layers self @ [i\<lparr>image_id := u, image_label := image_label i @ '' (copy)''\<rparr>]"
    and "layer_order (duplicate_image_layer u self) = layer_order self @ [(''image'', u)]"
    and "current_image_id (duplicate_image_layer u self) = Some u"
    by (simp_all add: d)
  show "image_id (last (image_layers (duplicate_image_layer u self))) \<noteq> image_id i"
    if "u \<noteq> image_id i" using that by (simp add: d)
next
  assume "get_current_overlay self = Some ov"
  then have d: "duplicate_overlay_layer u self =
      self\<lparr>overlay_layers := overlay_layers self @ [ov\<lparr>overlay_id := u, overlay_label := overlay_label ov @ '' (copy)''\<rparr>],
           layer_order := layer_order self @ [(''overlay'', u)], current_overlay_id := Some u\<rparr>"
    by (simp add: duplicate_overlay_layer_def create_overlay_layer_asdict_id)
  show "overlay_layers (duplicate_overlay_layer u self) =
      overlay_layers self @ [ov\<lparr>overlay_id := u, overlay_label := overlay_label ov @ '' (copy)''\<rparr>]"
    and "layer_order (duplicate_overlay_layer u self) = layer_order self @ [(''overlay'', u)]"
    and "current_overlay_id (duplicate_overlay_layer u self) = Some u"
    by (simp_all add: d)
  show "overlay_id (last (overlay_layers (duplicate_overlay_layer u self))) \<noteq> overlay_id ov"
    if "u \<noteq> overlay_id ov" using that by (simp add: d)
qed

lemma example_designer_current:
  "get_current_text example_designer = Some (default_text_layer ''t1'')"
  "get_current_image example_designer = Some (default_image_layer ''i1'')"
  "get_current_overlay example_designer = Some (default_overlay_layer ''o1'')"
  by (simp_all add: example_designer_def init_designer_def get_current_text_def
      get_current_image_def get_current_overlay_def truthy_id_def default_text_layer_def
      default_image_layer_def default_overlay_layer_def)

theorem duplicate_copies_fields_witness:
  "get_current_text example_designer = Some (default_text_layer ''t1'') \<and>
   get_current_image example_designer = Some (default_image_layer ''i1'') \<and>
   get_current_overlay example_designer = Some (default_overlay_layer ''o1'') \<and>
   text_layers (duplicate_text_layer ''u2'' example_designer) =
     [default_text_layer ''t1'',
      (default_text_layer ''t1'')\<lparr>text_id := ''u2'', text_label := ''Judul Utama (copy)''\<rparr>] \<and>
   image_layers (duplicate_image_layer ''u2'' example_designer) =
     [default_image_layer ''i1'',
      (default_image_layer ''i1'')\<lparr>image_id := ''u2'', image_label := ''Gambar (copy)''\<rparr>] \<and>
   overlay_layers (duplicate_overlay_layer ''u2'' example_designer) =
     [default_overlay_layer ''o1'',
      (default_overlay_layer ''o1'')\<lparr>overlay_id := ''u2'', overlay_label := ''Highlight (copy)''\<rparr>] \<and>
   text_id (last (text_layers (duplicate_text_layer ''u2'' example_designer))) \<noteq> ''t1'' \<and>
   image_id (last (image_layers (duplicate_image_layer ''u2'' example_designer))) \<noteq> ''i1'' \<and>
   overlay_id (last (overlay_layers (duplicate_overlay_layer ''u2'' example_designer))) \<noteq> ''o1''"
proof -
  note w = duplicate_copies_fields [of example_designer "default_text_layer ''t1''" "''u2''"
      "default_image_layer ''i1''" "default_overlay_layer ''o1''"]
  have layers: "text_layers example_designer = [default_text_layer ''t1'']"
    "image_layers example_designer = [default_image_layer ''i1'']"
    "overlay_layers example_designer = [default_overlay_layer ''o1'']"
    by (simp_all add: example_designer_def init_designer_def)
  have ids: "text_id (default_text_layer ''t1'') = ''t1''"
    "image_id (default_image_layer ''i1'') = ''i1''"
    "overlay_id (default_overlay_layer ''o1'') = ''o1''"
    "text_label (default_text_layer ''t1'') = ''Judul Utama''"
    "image_label (default_image_layer ''i1'') = ''Gambar''"
    "overlay_label (default_overlay_layer ''o1'') = ''Highlight''"
    by (simp_all add: default_text_layer_def default_image_layer_def default_overlay_layer_def)
  show ?thesis
    using w by (simp add: example_designer_current layers ids)
qed

section \<open>Claim C8: the image background falls back to the solid fill\<close>

lemma example_getrgb_202020: "example_getrgb ''#202020'' = Inr (32, 32, 32, 255)"
  by (simp add: example_getrgb_def hex_byte_def hex_digit_def)

lemma example_getrgb_111111: "example_getrgb ''#111111'' = Inr (17, 17, 17, 255)"
  by (simp add: example_getrgb_def hex_byte_def hex_digit_def)

lemma example_getrgb_notacolor: "example_getrgb ''notacolor'' = Inl ValueError"
  by (simp add: example_getrgb_def)

text \<open>
  The existence test stands before the \<open>try\<close>: when it raises for a path that is neither
  \<open>None\<close> nor empty, the renderer raises the same exception.
\<close>

lemma image_background_exists_raises:
  assumes "getrgb E (solid_color (background self)) = Inr c"
    and "bg_image_path (background self) = Some p" and "p \<noteq> []"
    and "path_exists E p = Inl e"
  shows "render_image_background E self = Inl e"
  using assms
  by (simp add: render_image_background_def image_new_def bind_err_def Let_def)

text \<open>
  C8 as stated fails, in two ways. The canvas of \<open>solid_color\<close> is made first, before the
  path is looked at and outside the \<open>try\<close>: with no image path at all, a \<open>solid_color\<close>
  that the colour parser rejects makes the background renderer, and with it the render,
  raise \<open>ValueError\<close>. And the existence test stands outside the \<open>try\<close> as well: where it
  raises \<open>OSError\<close> for a name longer than the 255 characters the file system allows, a
  path of 300 characters, which names no file, makes the renderer and the render raise
  \<open>OSError\<close>.
\<close>

theorem image_background_raises_counterexample:
  "bg_image_path (default_background\<lparr>bg_mode := ''image'', solid_color := ''notacolor''\<rparr>) = None \<and>
   render_image_background example_env
     (init_designer\<lparr>background :=
        default_background\<lparr>bg_mode := ''image'', solid_color := ''notacolor''\<rparr>\<rparr>)
     = Inl ValueError \<and>
   render_thumbnail example_env
     (init_designer\<lparr>background :=
        default_background\<lparr>bg_mode := ''image'', solid_color := ''notacolor''\<rparr>\<rparr>)
     = Inl ValueError \<and>
   render_image_background long_name_env
     (init_designer\<lparr>background :=
        default_background\<lparr>bg_mode := ''image'',
          bg_image_path := Some (replicate 300 CHR ''a'')\<rparr>\<rparr>)
     = Inl OSError \<and>
   render_thumbnail long_name_env
     (init_designer\<lparr>background :=
        default_background\<lparr>bg_mode := ''image'',
          bg_image_path := Some (replicate 300 CHR ''a'')\<rparr>\<rparr>)
     = Inl OSError"
  by (simp add: render_image_background_def render_thumbnail_def background_layer_of_def
      image_new_def bind_err_def example_env_def long_name_env_def init_designer_def
      default_background_def example_getrgb_notacolor example_getrgb_111111
      example_getrgb_202020)

text \<open>
  C8, amended: in mode \<open>image\<close>, for a \<open>solid_color\<close> that the colour parser accepts (it
  returns \<open>c\<close>): when \<open>image_path\<close> is absent (\<open>None\<close> or empty), or the existence test
  answers that no file is there, or the file is there and opening or converting it
  raises \<open>OSError\<close> or one of its subclasses, the background renderer returns the canvas
  filled with \<open>solid_color\<close> and raises nothing.
\<close>

theorem image_background_fallback:
  assumes "getrgb E (solid_color (background self)) = Inr c"
    and "bg_image_path (background self) = None
         \<or> bg_image_path (background self) = Some []
         \<or> (\<exists>p. bg_image_path (background self) = Some p \<and> path_exists E p = Inr False)
         \<or> (\<exists>p e. bg_image_path (background self) = Some p \<and> path_exists E p = Inr True
               \<and> image_open E p = Inl e \<and> is_OSError e)"
  shows "render_image_background E self = Inr (New (base_width self) (base_height self) c)
    \<and> (bg_mode (background self) = ''image'' \<longrightarrow>
         background_layer_of E self = Inr (New (base_width self) (base_height self) c))"
proof -
  have r: "render_image_background E self = Inr (New (base_width self) (base_height self) c)"
    using assms
    by (auto simp: render_image_background_def image_new_def bind_err_def Let_def
        split: option.splits sum.splits)
  then show ?thesis
    by (simp add: background_layer_of_def)
qed

theorem image_background_fallback_witness:
  "render_image_background example_env
     (init_designer\<lparr>background :=
        default_background\<lparr>bg_mode := ''image'', bg_image_path := Some ''missing.png''\<rparr>\<rparr>)
     = Inr (New 1280 720 (32, 32, 32, 255)) \<and>
   background_layer_of example_env
     (init_designer\<lparr>background :=
        default_background\<lparr>bg_mode := ''image'', bg_image_path := Some ''missing.png''\<rparr>\<rparr>)
     = Inr (New 1280 720 (32, 32, 32, 255)) \<and>
   render_image_background locked_file_env
     (init_designer\<lparr>background :=
        default_background\<lparr>bg_mode := ''image'', bg_image_path := Some ''locked.png''\<rparr>\<rparr>)
     = Inr (New 1280 720 (32, 32, 32, 255))"
  using image_background_fallback [of example_env
      "init_designer\<lparr>background :=
         default_background\<lparr>bg_mode := ''image'', bg_image_path := Some ''missing.png''\<rparr>\<rparr>"
      "(32, 32, 32, 255)"]
    image_background_fallback [of locked_file_env
      "init_designer\<lparr>background :=
         default_background\<lparr>bg_mode := ''image'', bg_image_path := Some ''locked.png''\<rparr>\<rparr>"
      "(32, 32, 32, 255)"]
  by (simp add: example_env_def locked_file_env_def init_designer_def default_background_def
      example_getrgb_202020)
section \<open>Compositor: properties\<close>

lemma composite_layers_append:
  "composite_layers E self (xs @ ys) img =
     bind_err (composite_layers E self xs img) (composite_layers E self ys)"
  by (induction xs arbitrary: img) (auto simp: bind_err_def split: sum.splits)

lemma composite_entry_stale:
  assumes "\<not> resolves self entry"
  shows "composite_entry E self img entry = Inr img"
proof -
  obtain layer_type layer_id where entry: "entry = (layer_type, layer_id)"
    by (cases entry)
  have none: "find P xs = None" if "\<forall>x \<in> set xs. \<not> P x" for P and xs :: "'a list"
    using that by (simp add: find_None_iff)
  have "find (\<lambda>ov. overlay_id ov = layer_id) (overlay_layers self) = None"
    if "layer_type = ''overlay''"
    using assms that by (intro none) (auto simp: resolves_def entry)
  moreover have "find (\<lambda>i. image_id i = layer_id) (image_layers self) = None"
    if "layer_type = ''image''"
    using assms that by (intro none) (auto simp: resolves_def entry)
  moreover have "find (\<lambda>t. text_id t = layer_id) (text_layers self) = None"
    if "layer_type = ''text''"
    using assms that by (intro none) (auto simp: resolves_def entry)
  ultimately show ?thesis
    by (simp add: composite_entry_def entry)
qed

lemma composite_layers_all_stale:
  "\<forall>entry \<in> set entries. \<not> resolves self entry \<Longrightarrow>
   composite_layers E self entries img = Inr img"
  by (induction entries) (simp_all add: composite_entry_stale bind_err_def)

lemma composite_layers_drop_stale:
  assumes "\<not> resolves self entry"
  shows "composite_layers E self (xs @ entry # ys) img = composite_layers E self (xs @ ys) img"
  by (simp add: composite_layers_append composite_entry_stale [OF assms] bind_err_def
      split: sum.splits)

lemma render_overlay_layer_layer_order [simp]:
  "render_overlay_layer E (self\<lparr>layer_order := l\<rparr>) layer = render_overlay_layer E self layer"
  by (simp add: render_overlay_layer_def)

lemma render_text_layer_layer_order [simp]:
  "render_text_layer E (self\<lparr>layer_order := l\<rparr>) layer = render_text_layer E self layer"
  by (simp add: render_text_layer_def)

lemma composite_entry_layer_order [simp]:
  "composite_entry E (self\<lparr>layer_order := l\<rparr>) img entry = composite_entry E self img entry"
  by (simp add: composite_entry_def split: prod.splits option.splits)

lemma composite_layers_layer_order [simp]:
  "composite_layers E (self\<lparr>layer_order := l\<rparr>) entries = composite_layers E self entries"
proof (induction entries)
  case Nil
  show ?case by (rule ext) simp
next
  case (Cons entry entries)
  show ?case by (rule ext) (simp add: Cons.IH)
qed

lemma apply_background_corrections_layer_order [simp]:
  "apply_background_corrections (self\<lparr>layer_order := l\<rparr>) img =
     apply_background_corrections self img"
  by (simp add: apply_background_corrections_def)

lemma render_image_background_layer_order [simp]:
  "render_image_background E (self\<lparr>layer_order := l\<rparr>) = render_image_background E self"
  by (simp add: render_image_background_def Let_def bind_err_def
      split: option.splits sum.splits)

lemma render_gradient_background_layer_order [simp]:
  "render_gradient_background E (self\<lparr>layer_order := l\<rparr>) = render_gradient_background E self"
  by (simp add: render_gradient_background_def gradient_layer_of_def Let_def bind_err_def
      split: sum.splits)

lemma background_layer_of_layer_order [simp]:
  "background_layer_of E (self\<lparr>layer_order := l\<rparr>) = background_layer_of E self"
  by (simp add: background_layer_of_def)

lemma render_thumbnail_order:
  "render_thumbnail E (self\<lparr>layer_order := l\<rparr>) =
     bind_err (image_new E (base_width self) (base_height self) ''#111111'') (\<lambda>base_image.
     bind_err (background_layer_of E self) (\<lambda>background_layer.
     composite_layers E self l (AlphaComposite base_image background_layer)))"
  by (simp add: render_thumbnail_def)

lemma resolves_layer_order [simp]: "resolves (self\<lparr>layer_order := l\<rparr>) = resolves self"
  by (intro ext) (simp add: resolves_def)

section \<open>Claim C6: a stale layer-order entry is skipped\<close>

text \<open>
  C6: an entry of the layer order whose id names no layer of its type is skipped. The
  step of the loop for it raises nothing and leaves the canvas as it was; rendering with
  the entry anywhere in the order gives what rendering without it gives (the same
  canvas, or the same exception of another layer); and when every entry is stale the
  loop returns the canvas it started from.
\<close>

theorem stale_entry_skipped:
  assumes "\<not> resolves self entry"
  shows "composite_entry E self img entry = Inr img
    \<and> composite_layers E self (xs @ entry # ys) img = composite_layers E self (xs @ ys) img
    \<and> render_thumbnail E (self\<lparr>layer_order := xs @ entry # ys\<rparr>)
        = render_thumbnail E (self\<lparr>layer_order := xs @ ys\<rparr>)
    \<and> ((\<forall>other \<in> set entries. \<not> resolves self other) \<longrightarrow>
          composite_layers E self (entry # entries) img = Inr img)"
proof -
  have "composite_layers E self (entry # entries) img = Inr img"
    if "\<forall>other \<in> set entries. \<not> resolves self other"
    using composite_layers_all_stale [of "entry # entries" self E img] assms that by simp
  then show ?thesis
    using assms
    by (simp add: composite_entry_stale composite_layers_drop_stale render_thumbnail_order)
qed

lemma example_designer_stale:
  "\<not> resolves example_designer (''text'', ''gone'')"
  "\<not> resolves example_designer (''image'', ''zz'')"
  by (simp_all add: resolves_def example_designer_def init_designer_def
      default_text_layer_def default_image_layer_def)

theorem stale_entry_skipped_witness:
  "\<not> resolves example_designer (''text'', ''gone'') \<and>
   composite_entry example_env example_designer (New 1280 720 (0, 0, 0, 255)) (''text'', ''gone'')
     = Inr (New 1280 720 (0, 0, 0, 255)) \<and>
   render_thumbnail example_env
     (example_designer\<lparr>layer_order := [(''overlay'', ''o1''), (''text'', ''gone''), (''image'', ''i1'')]\<rparr>)
     = render_thumbnail example_env
         (example_designer\<lparr>layer_order := [(''overlay'', ''o1''), (''image'', ''i1'')]\<rparr>) \<and>
   composite_layers example_env example_designer [(''text'', ''gone''), (''image'', ''zz'')]
     (New 1280 720 (0, 0, 0, 255)) = Inr (New 1280 720 (0, 0, 0, 255))"
proof -
  note w = stale_entry_skipped [where self = example_designer and entry = "(''text'', ''gone'')"
      and E = example_env and img = "New 1280 720 (0, 0, 0, 255)"
      and xs = "[(''overlay'', ''o1'')]" and ys = "[(''image'', ''i1'')]"
      and entries = "[(''image'', ''zz'')]", OF example_designer_stale(1)]
  have rest: "\<forall>other \<in> set [(''image'', ''zz'')]. \<not> resolves example_designer other"
    by (simp add: example_designer_stale)
  have w': "composite_entry example_env example_designer (New 1280 720 (0, 0, 0, 255))
        (''text'', ''gone'') = Inr (New 1280 720 (0, 0, 0, 255))"
    "render_thumbnail example_env
       (example_designer\<lparr>layer_order := [(''overlay'', ''o1''), (''text'', ''gone''), (''image'', ''i1'')]\<rparr>)
       = render_thumbnail example_env
           (example_designer\<lparr>layer_order := [(''overlay'', ''o1''), (''image'', ''i1'')]\<rparr>)"
    "(\<forall>other \<in> set [(''image'', ''zz'')]. \<not> resolves example_designer other) \<longrightarrow>
       composite_layers example_env example_designer [(''text'', ''gone''), (''image'', ''zz'')]
         (New 1280 720 (0, 0, 0, 255)) = Inr (New 1280 720 (0, 0, 0, 255))"
    using w unfolding append.simps by blast+
  from w'(3) rest have "composite_layers example_env example_designer
      [(''text'', ''gone''), (''image'', ''zz'')] (New 1280 720 (0, 0, 0, 255))
      = Inr (New 1280 720 (0, 0, 0, 255))"
    by (rule mp)
  with w'(1,2) example_designer_stale(1) show ?thesis by (intro conjI)
qed

section \<open>Claim C7: a missing font aborts the render\<close>

lemma composite_layers_raises:
  assumes "\<And>img. \<exists>e. composite_entry E self img entry = Inl e"
    and "entry \<in> set entries"
  shows "\<exists>e. composite_layers E self entries img = Inl e"
  using assms(2)
proof (induction entries arbitrary: img)
  case Nil
  then show ?case by simp
next
  case (Cons a entries)
  show ?case
  proof (cases "composite_entry E self img a")
    case (Inl e)
    then show ?thesis by (simp add: bind_err_def)
  next
    case (Inr img')
    with assms(1) [of img] have "a \<noteq> entry" by auto
    with Cons.prems have "entry \<in> set entries" by simp
    from Cons.IH [OF this, of img'] show ?thesis
      using Inr by (simp add: bind_err_def)
  qed
qed

text \<open>
  C7: a text layer whose font file does not exist makes \<open>_render_text_layer\<close> raise
  \<open>FileNotFoundError\<close>; the step of the compositing loop for that layer raises it too, and
  a render whose layer order names the layer ends in an exception, not in an image. No
  font is substituted: whenever \<open>_render_text_layer\<close> returns an image, the font file of the
  layer exists, and the lines were measured and drawn with the font loaded from that
  file at the size of the layer.
\<close>

theorem missing_font_aborts:
  "(\<not> font_exists E (text_font_file layer) \<longrightarrow>
      render_text_layer E self layer = Inl FileNotFoundError \<and>
      (find (\<lambda>t. text_id t = layer_id) (text_layers self) = Some layer \<longrightarrow>
         composite_entry E self img (''text'', layer_id) = Inl FileNotFoundError \<and>
         ((''text'', layer_id) \<in> set (layer_order self) \<longrightarrow>
            (\<exists>e. render_thumbnail E self = Inl e)))) \<and>
   (render_text_layer E self layer = Inr rendered \<longrightarrow>
      font_exists E (text_font_file layer) \<and>
      (\<exists>font max_width_pixels text_image.
         truetype E (fonts_dir @ ''/'' @ text_font_file layer) (text_font_size layer) = Inr font \<and>
         draw_lines E (base_width self) (base_height self) layer font
           (wrap_lines (getbbox E font) (text_tracking layer) max_width_pixels
              (splitlines (text_text layer))) = Inr text_image \<and>
         rendered = AlphaComposite (New (base_width self) (base_height self) (0, 0, 0, 0)) text_image))"
proof (intro conjI impI)
  assume missing: "\<not> font_exists E (text_font_file layer)"
  then show r: "render_text_layer E self layer = Inl FileNotFoundError"
    by (simp add: render_text_layer_def ensure_font_path_def bind_err_def)
  assume found: "find (\<lambda>t. text_id t = layer_id) (text_layers self) = Some layer"
  then show c: "composite_entry E self img (''text'', layer_id) = Inl FileNotFoundError"
    by (simp add: composite_entry_def r bind_err_def)
  assume "(''text'', layer_id) \<in> set (layer_order self)"
  moreover have "\<exists>e. composite_entry E self img' (''text'', layer_id) = Inl e" for img'
    using found by (simp add: composite_entry_def r bind_err_def)
  ultimately have "\<exists>e. composite_layers E self (layer_order self) img' = Inl e" for img'
    by (rule composite_layers_raises [rotated])
  then show "\<exists>e. render_thumbnail E self = Inl e"
    by (auto simp: render_thumbnail_def bind_err_def split: sum.splits)
next
  assume ok: "render_text_layer E self layer = Inr rendered"
  then show "font_exists E (text_font_file layer)"
    by (auto simp: render_text_layer_def ensure_font_path_def bind_err_def split: if_splits)
  from ok show "\<exists>font max_width_pixels text_image.
      truetype E (fonts_dir @ ''/'' @ text_font_file layer) (text_font_size layer) = Inr font \<and>
      draw_lines E (base_width self) (base_height self) layer font
        (wrap_lines (getbbox E font) (text_tracking layer) max_width_pixels
           (splitlines (text_text layer))) = Inr text_image \<and>
      rendered = AlphaComposite (New (base_width self) (base_height self) (0, 0, 0, 0)) text_image"
    by (auto simp: render_text_layer_def ensure_font_path_def bind_err_def Let_def
        split: if_splits sum.splits)
qed

lemma example_max_width_pixels: "scaled_int 1280 (float_lit (9 / 10)) = Inr 1152"
  by code_simp

lemma example_render_text_layer:
  "render_text_layer example_env example_designer (default_text_layer ''t1'')
     = Inr (AlphaComposite (New 1280 720 (0, 0, 0, 0)) (New 1280 720 (0, 0, 0, 0)))"
  by (simp add: render_text_layer_def example_env_def example_designer_def init_designer_def
      default_text_layer_def ensure_font_path_def bind_err_def example_max_width_pixels)

theorem missing_font_aborts_witness:
  "\<not> font_exists example_env ''Missing.ttf'' \<and>
   render_text_layer example_env
     (example_designer\<lparr>text_layers := [(default_text_layer ''t1'')\<lparr>text_font_file := ''Missing.ttf''\<rparr>]\<rparr>)
     ((default_text_layer ''t1'')\<lparr>text_font_file := ''Missing.ttf''\<rparr>) = Inl FileNotFoundError \<and>
   composite_entry example_env
     (example_designer\<lparr>text_layers := [(default_text_layer ''t1'')\<lparr>text_font_file := ''Missing.ttf''\<rparr>]\<rparr>)
     (New 1280 720 (0, 0, 0, 255)) (''text'', ''t1'') = Inl FileNotFoundError \<and>
   (\<exists>e. render_thumbnail example_env
     (example_designer\<lparr>text_layers := [(default_text_layer ''t1'')\<lparr>text_font_file := ''Missing.ttf''\<rparr>]\<rparr>)
     = Inl e) \<and>
   render_text_layer example_env example_designer (default_text_layer ''t1'')
     = Inr (AlphaComposite (New 1280 720 (0, 0, 0, 0)) (New 1280 720 (0, 0, 0, 0))) \<and>
   font_exists example_env (text_font_file (default_text_layer ''t1''))"
proof -
  let ?L = "(default_text_layer ''t1'')\<lparr>text_font_file := ''Missing.ttf''\<rparr>"
  let ?D = "example_designer\<lparr>text_layers := [?L]\<rparr>"
  have missing: "\<not> font_exists example_env (text_font_file ?L)"
    by (simp add: example_env_def)
  have found: "find (\<lambda>t. text_id t = ''t1'') (text_layers ?D) = Some ?L"
    by (simp add: default_text_layer_def)
  have ordered: "(''text'', ''t1'') \<in> set (layer_order ?D)"
    by (simp add: example_designer_def init_designer_def)
  note bad = missing_font_aborts [where E = example_env and layer = ?L and self = ?D
      and layer_id = "''t1''" and img = "New 1280 720 (0, 0, 0, 255)"]
  note good = missing_font_aborts [where E = example_env and layer = "default_text_layer ''t1''"
      and self = example_designer
      and rendered = "AlphaComposite (New 1280 720 (0, 0, 0, 0)) (New 1280 720 (0, 0, 0, 0))"]
  have "font_exists example_env (text_font_file (default_text_layer ''t1''))"
    using good example_render_text_layer by blast
  moreover have "render_text_layer example_env ?D ?L = Inl FileNotFoundError"
    "composite_entry example_env ?D (New 1280 720 (0, 0, 0, 255)) (''text'', ''t1'')
       = Inl FileNotFoundError"
    "\<exists>e. render_thumbnail example_env ?D = Inl e"
    using bad missing found ordered by blast+
  moreover have "\<not> font_exists example_env ''Missing.ttf''"
    by (simp add: example_env_def)
  ultimately show ?thesis
    using example_render_text_layer by (intro conjI)
qed

section \<open>Splitting and stripping: properties\<close>

lemma split_on_not_Nil [simp]: "split_on P s \<noteq> []"
  by (induction s) (auto split: list.splits)

lemma split_on_cut:
  "P c \<Longrightarrow> split_on P (a @ c # b) = split_on P a @ split_on P b"
  by (induction a) (auto split: list.splits)

lemma split_on_refine:
  assumes "\<And>c. Q c \<Longrightarrow> P c"
  shows "concat (map (split_on P) (split_on Q s)) = split_on P s"
proof (induction s)
  case Nil
  show ?case by simp
next
  case (Cons c cs)
  obtain w ws where w: "split_on Q cs = w # ws"
    by (cases "split_on Q cs") simp_all
  obtain u us where u: "split_on P w = u # us"
    by (cases "split_on P w") simp_all
  from Cons.IH have IH: "split_on P cs = u # us @ concat (map (split_on P) ws)"
    by (simp add: w u)
  show ?case
  proof (cases "Q c")
    case True
    then have "P c" by (rule assms)
    with True Cons.IH show ?thesis by simp
  next
    case False
    then show ?thesis by (simp add: w u IH)
  qed
qed


lemma isspace_space [simp]: "isspace CHR '' ''"
  by (simp add: isspace_def)

lemma py_words_Nil [simp]: "py_words [] = []"
  by (simp add: py_words_def)

lemma py_words_cut: "isspace c \<Longrightarrow> py_words (a @ c # b) = py_words a @ py_words b"
  by (simp add: py_words_def split_on_cut)

lemma py_words_space: "py_words (a @ '' '' @ b) = py_words a @ py_words b"
  using py_words_cut [of "CHR '' ''" a b] by simp

lemma py_words_lstrip: "py_words (lstrip s) = py_words s"
  by (induction s) (simp_all add: lstrip_def py_words_def)

lemma rstrip_snoc: "rstrip (s @ [c]) = (if isspace c then rstrip s else s @ [c])"
  by (simp add: rstrip_def)

lemma py_words_rstrip: "py_words (rstrip s) = py_words s"
proof (induction s rule: rev_induct)
  case Nil
  show ?case by (simp add: rstrip_def)
next
  case (snoc c s)
  show ?case
  proof (cases "isspace c")
    case True
    then have "py_words (s @ [c]) = py_words s"
      using py_words_cut [of c s "[]"] by simp
    with True snoc show ?thesis by (simp add: rstrip_snoc)
  next
    case False
    then show ?thesis by (simp add: rstrip_snoc)
  qed
qed

lemma py_words_strip: "py_words (strip s) = py_words s"
  by (simp add: strip_def py_words_rstrip py_words_lstrip)

lemma py_words_split_space: "concat (map py_words (split_space line)) = py_words line"
proof -
  have "concat (map py_words (split_space line))
      = filter (\<lambda>w. w \<noteq> []) (concat (map (split_on isspace) (split_space line)))"
    by (simp add: py_words_def [abs_def] filter_concat comp_def)
  also have "concat (map (split_on isspace) (split_space line)) = split_on isspace line"
    unfolding split_space_def by (rule split_on_refine) simp
  finally show ?thesis by (simp add: py_words_def [abs_def])
qed

lemma wrap_words_py_words:
  "concat (map py_words (wrap_words g t m cur ws)) = py_words cur @ concat (map py_words ws)"
proof (induction ws arbitrary: cur)
  case Nil
  show ?case by simp
next
  case (Cons w ws)
  have "py_words (strip (cur @ '' '' @ w)) = py_words cur @ py_words w"
    by (simp only: py_words_strip py_words_space)
  then show ?case
    by (simp add: Let_def Cons.IH)
qed

section \<open>Claim C10: wrapping keeps the words of a line\<close>

text \<open>
  C10: for every line, every font measure, tracking and limit, the whitespace-separated
  non-empty words of the output lines, read in order, are exactly the
  whitespace-separated non-empty words of the line: nothing is dropped, repeated,
  reordered or split.
\<close>

theorem wrap_line_keeps_words:
  "concat (map py_words (wrap_line bbox_of tracking max_width_pixels line)) = py_words line"
proof (cases "strip line = []")
  case True
  then have "py_words line = []"
    using py_words_strip [of line] by simp
  with True show ?thesis by (simp add: wrap_line_def)
next
  case False
  then show ?thesis
    by (simp add: wrap_line_def wrap_words_py_words py_words_split_space)
qed

section \<open>Stripping around a word\<close>

lemma lstrip_keep:
  assumes "u \<noteq> []" "\<not> isspace (hd u)"
  shows "lstrip (x @ u @ y) = lstrip x @ u @ y"
proof -
  have "dropWhile isspace (u @ y) = u @ y"
    using assms by (cases u) simp_all
  then show ?thesis
    by (simp add: lstrip_def dropWhile_append)
qed

lemma rstrip_keep:
  assumes "u \<noteq> []" "\<not> isspace (last u)"
  shows "rstrip (x @ u @ y) = x @ u @ rstrip y"
proof -
  have "dropWhile isspace (rev u @ rev x) = rev u @ rev x"
    using assms by (cases "rev u") (simp_all add: last_rev [symmetric] hd_rev)
  then show ?thesis
    by (simp add: rstrip_def dropWhile_append)
qed

lemma strip_keep:
  assumes "u \<noteq> []" "\<not> isspace (hd u)" "\<not> isspace (last u)"
  shows "strip (x @ u @ y) = lstrip x @ u @ rstrip y"
  by (simp add: strip_def lstrip_keep [OF assms(1,2)] rstrip_keep [OF assms(1,3)])

lemma strip_id:
  assumes "u \<noteq> []" "\<not> isspace (hd u)" "\<not> isspace (last u)"
  shows "strip u = u"
  using strip_keep [OF assms, of "[]" "[]"] by (simp add: lstrip_def rstrip_def)

lemma rstrip_prefix: "\<exists>b. v = rstrip v @ b"
proof -
  have "rev v = takeWhile isspace (rev v) @ dropWhile isspace (rev v)" by simp
  then have "v = rev (dropWhile isspace (rev v)) @ rev (takeWhile isspace (rev v))"
    by (metis rev_append rev_rev_ident)
  then show ?thesis unfolding rstrip_def by blast
qed

lemma strip_ends:
  assumes "strip w \<noteq> []"
  shows "\<not> isspace (hd (strip w))" and "\<not> isspace (last (strip w))"
    and "\<exists>a b. w = a @ strip w @ b"
proof -
  let ?v = "lstrip w"
  obtain b where b: "?v = strip w @ b"
    using rstrip_prefix [of ?v] by (auto simp: strip_def)
  have v: "?v \<noteq> []" using assms b by auto
  then have "\<not> isspace (hd ?v)"
    unfolding lstrip_def by (rule hd_dropWhile)
  moreover have "hd ?v = hd (strip w)"
    using assms by (subst b) simp
  ultimately show "\<not> isspace (hd (strip w))" by simp
  have "dropWhile isspace (rev ?v) \<noteq> []"
    using assms by (simp add: strip_def rstrip_def)
  then have "\<not> isspace (hd (dropWhile isspace (rev ?v)))"
    by (rule hd_dropWhile)
  then show "\<not> isspace (last (strip w))"
    using assms by (simp add: strip_def rstrip_def last_rev)
  have "w = takeWhile isspace w @ ?v" by (simp add: lstrip_def)
  then have "w = takeWhile isspace w @ strip w @ b" using b by simp
  then show "\<exists>a b. w = a @ strip w @ b" by blast
qed



lemma strip_strip [simp]: "strip (strip s) = strip s"
proof (cases "strip s = []")
  case True
  have "strip [] = []" by (simp add: strip_def lstrip_def rstrip_def)
  with True show ?thesis by simp
next
  case False
  then show ?thesis
    using strip_ends(1,2) [OF False] by (intro strip_id)
qed


section \<open>The wrapping loop: properties\<close>










section \<open>The wrapping loop: a line ends only before a word that does not fit\<close>

text \<open>
  The first line the inner loop gives out is the current line as it stood, or begins
  with it (trimmed). Of two lines that follow each other in the output, the first was
  given out because of a word of the input that did not fit on it, and the second is
  that word or begins with it (trimmed).
\<close>

lemma wrap_words_not_Nil [simp]: "wrap_words g t m cur ws \<noteq> []"
  by (induction ws arbitrary: cur) (simp_all add: Let_def)



section \<open>Claim C4: greedy word wrapping\<close>









section \<open>Floats: the exponent\<close>

lemma two_powi_nat: "0 \<le> n \<Longrightarrow> (2::rat) powi n = of_int (2 ^ nat n)"
  by (simp add: power_int_def)

lemma ilog2_bounds:
  assumes "0 < x"
  shows "2 powi ilog2 x \<le> x" and "x < 2 powi (ilog2 x + 1)"
proof -
  obtain p q where pq: "quotient_of x = (p, q)" by (cases "quotient_of x")
  have q: "0 < q" using pq by (rule quotient_of_denom_pos)
  have x: "x = of_int p / of_int q" using pq by (rule quotient_of_div)
  have p: "0 < p" using assms q unfolding x by (simp add: zero_less_divide_iff)
  define k where "k = bitlen p - bitlen q"
  have bp: "(2::rat) powi (bitlen p - 1) \<le> of_int p" "of_int p < (2::rat) powi bitlen p"
  proof -
    have "0 \<le> bitlen p - 1" using p bitlen_bounds [of p] bitlen_eq_zero_iff [of p] bitlen_nonneg [of p] by linarith
    then have "(2::rat) powi (bitlen p - 1) = of_int (2 ^ nat (bitlen p - 1))" by (rule two_powi_nat)
    also have "\<dots> \<le> of_int p" using bitlen_bounds [OF p] by (simp only: of_int_le_iff)
    finally show "(2::rat) powi (bitlen p - 1) \<le> of_int p" .
    have "(of_int p :: rat) < of_int (2 ^ nat (bitlen p))" using bitlen_bounds [OF p] by (simp only: of_int_less_iff)
    also have "\<dots> = 2 powi bitlen p" using two_powi_nat [OF bitlen_nonneg, of p] by simp
    finally show "of_int p < (2::rat) powi bitlen p" .
  qed
  have bq: "(2::rat) powi (bitlen q - 1) \<le> of_int q" "of_int q < (2::rat) powi bitlen q"
  proof -
    have "0 \<le> bitlen q - 1" using q bitlen_bounds [of q] bitlen_eq_zero_iff [of q] bitlen_nonneg [of q] by linarith
    then have "(2::rat) powi (bitlen q - 1) = of_int (2 ^ nat (bitlen q - 1))" by (rule two_powi_nat)
    also have "\<dots> \<le> of_int q" using bitlen_bounds [OF q] by (simp only: of_int_le_iff)
    finally show "(2::rat) powi (bitlen q - 1) \<le> of_int q" .
    have "(of_int q :: rat) < of_int (2 ^ nat (bitlen q))" using bitlen_bounds [OF q] by (simp only: of_int_less_iff)
    also have "\<dots> = 2 powi bitlen q" using two_powi_nat [OF bitlen_nonneg, of q] by simp
    finally show "of_int q < (2::rat) powi bitlen q" .
  qed
  have qpos: "(0::rat) < of_int q" using q by simp
  have lower: "2 powi (k - 1) < x"
  proof -
    have "(2::rat) powi (k - 1) * of_int q < 2 powi (k - 1) * 2 powi bitlen q"
      using bq(2) by (intro mult_strict_left_mono) simp_all
    also have "\<dots> = 2 powi (bitlen p - 1)"
      by (simp add: k_def flip: power_int_add)
    also have "\<dots> \<le> of_int p" by (rule bp(1))
    finally show ?thesis unfolding x using qpos by (simp add: pos_less_divide_eq)
  qed
  have upper: "x < 2 powi (k + 1)"
  proof -
    have "of_int p < (2::rat) powi bitlen p" by (rule bp(2))
    also have "\<dots> = 2 powi (k + 1) * 2 powi (bitlen q - 1)"
      by (simp add: k_def flip: power_int_add)
    also have "\<dots> \<le> 2 powi (k + 1) * of_int q"
      using bq(1) by (intro mult_left_mono) simp_all
    finally show ?thesis unfolding x using qpos by (simp add: pos_divide_less_eq)
  qed
  have il: "ilog2 x = (if 2 powi k \<le> x then k else k - 1)"
    by (simp add: ilog2_def pq k_def Let_def)
  show "2 powi ilog2 x \<le> x"
    using lower by (simp add: il)
  show "x < 2 powi (ilog2 x + 1)"
    using upper by (simp add: il)
qed

lemma ilog2_unique:
  assumes "2 powi e \<le> x" "x < 2 powi (e + 1)"
  shows "ilog2 x = e"
proof -
  have pos: "0 < x" using assms(1) by (rule less_le_trans [rotated]) simp
  have "(2::rat) powi ilog2 x < 2 powi (e + 1)"
    using ilog2_bounds(1) [OF pos] assms(2) by simp
  then have "ilog2 x < e + 1"
    by (metis power_int_increasing not_le one_le_numeral)
  moreover have "(2::rat) powi e < 2 powi (ilog2 x + 1)"
    using ilog2_bounds(2) [OF pos] assms(1) by simp
  then have "e < ilog2 x + 1"
    by (metis power_int_increasing not_le one_le_numeral)
  ultimately show ?thesis by simp
qed

lemma ilog2_mono:
  assumes "0 < x" "x \<le> y"
  shows "ilog2 x \<le> ilog2 y"
proof -
  have "0 < y" using assms by simp
  have "(2::rat) powi ilog2 x < 2 powi (ilog2 y + 1)"
    using ilog2_bounds(1) [OF assms(1)] ilog2_bounds(2) [OF \<open>0 < y\<close>] assms(2) by simp
  then have "ilog2 x < ilog2 y + 1"
    by (metis power_int_increasing not_le one_le_numeral)
  then show ?thesis by simp
qed

lemma ilog2_ge_iff:
  assumes "0 < x"
  shows "e \<le> ilog2 x \<longleftrightarrow> 2 powi e \<le> x"
proof
  assume "e \<le> ilog2 x"
  then have "(2::rat) powi e \<le> 2 powi ilog2 x" by (intro power_int_increasing) simp_all
  with ilog2_bounds(1) [OF assms] show "2 powi e \<le> x" by simp
next
  assume "2 powi e \<le> x"
  then have "(2::rat) powi e < 2 powi (ilog2 x + 1)"
    using ilog2_bounds(2) [OF assms] by simp
  then have "e < ilog2 x + 1"
    by (metis power_int_increasing not_le one_le_numeral)
  then show "e \<le> ilog2 x" by simp
qed


section \<open>Floats: rounding to the nearest integer\<close>

lemma rne_cases: "rne x = \<lfloor>x\<rfloor> \<or> rne x = \<lfloor>x\<rfloor> + 1"
  by (simp add: rne_def Let_def)

lemma rne_of_int [simp]: "rne (of_int n) = n"
  by (simp add: rne_def)

lemma rne_mono:
  assumes "x \<le> y"
  shows "rne x \<le> rne y"
proof (cases "\<lfloor>x\<rfloor> < \<lfloor>y\<rfloor>")
  case True
  have "rne x \<le> \<lfloor>x\<rfloor> + 1" using rne_cases [of x] by auto
  also have "\<dots> \<le> \<lfloor>y\<rfloor>" using True by simp
  also have "\<dots> \<le> rne y" using rne_cases [of y] by auto
  finally show ?thesis .
next
  case False
  moreover have "\<lfloor>x\<rfloor> \<le> \<lfloor>y\<rfloor>" using assms by (rule floor_mono)
  ultimately have eq: "\<lfloor>x\<rfloor> = \<lfloor>y\<rfloor>" by simp
  then have "x - of_int \<lfloor>x\<rfloor> \<le> y - of_int \<lfloor>y\<rfloor>" using assms by simp
  then show ?thesis
    unfolding rne_def Let_def eq by auto
qed

lemma rne_le: "x \<le> of_int n \<Longrightarrow> rne x \<le> n"
  using rne_mono [of x "of_int n"] by simp

lemma rne_ge: "of_int n \<le> x \<Longrightarrow> n \<le> rne x"
  using rne_mono [of "of_int n" x] by simp

section \<open>Floats: rounding to the nearest double\<close>

lemma two_powi_pos [simp]: "(0::rat) < 2 powi n"
  by simp

lemma round_pos_nonneg: "0 < x \<Longrightarrow> 0 \<le> round_pos x"
proof -
  assume "0 < x"
  then have "of_int 0 \<le> x / 2 powi quantum x" by simp
  then have "0 \<le> rne (x / 2 powi quantum x)" by (rule rne_ge)
  then show ?thesis by (simp add: round_pos_def)
qed

lemma quantum_mono: "0 < x \<Longrightarrow> x \<le> y \<Longrightarrow> quantum x \<le> quantum y"
  using ilog2_mono [of x y] by (simp add: quantum_def)

text \<open>A power of two at or above the quantum is a double of that binade.\<close>

lemma round_pos_le_power:
  assumes "0 < x" "x \<le> 2 powi e" "quantum x \<le> e"
  shows "round_pos x \<le> 2 powi e"
proof -
  let ?q = "quantum x"
  have "(2::rat) powi e = 2 powi (e - ?q) * 2 powi ?q"
    by (simp flip: power_int_add)
  also have "(2::rat) powi (e - ?q) = of_int (2 ^ nat (e - ?q))"
    using assms(3) by (intro two_powi_nat) simp
  finally have e: "(2::rat) powi e = of_int (2 ^ nat (e - ?q)) * 2 powi ?q" .
  have "x / 2 powi ?q \<le> of_int (2 ^ nat (e - ?q))"
    using assms(2) unfolding e by (simp add: pos_divide_le_eq)
  then have "rne (x / 2 powi ?q) \<le> 2 ^ nat (e - ?q)" by (rule rne_le)
  then have "(of_int (rne (x / 2 powi ?q)) :: rat) \<le> of_int (2 ^ nat (e - ?q))"
    by (simp only: of_int_le_iff)
  then show ?thesis
    unfolding round_pos_def e by (intro mult_right_mono) simp_all
qed

lemma round_pos_ge_power:
  assumes "0 < x" "2 powi e \<le> x" "quantum x \<le> e"
  shows "2 powi e \<le> round_pos x"
proof -
  let ?q = "quantum x"
  have "(2::rat) powi e = 2 powi (e - ?q) * 2 powi ?q"
    by (simp flip: power_int_add)
  also have "(2::rat) powi (e - ?q) = of_int (2 ^ nat (e - ?q))"
    using assms(3) by (intro two_powi_nat) simp
  finally have e: "(2::rat) powi e = of_int (2 ^ nat (e - ?q)) * 2 powi ?q" .
  have "of_int (2 ^ nat (e - ?q)) \<le> x / 2 powi ?q"
    using assms(2) unfolding e by (simp add: pos_le_divide_eq)
  then have "2 ^ nat (e - ?q) \<le> rne (x / 2 powi ?q)" by (rule rne_ge)
  then have "(of_int (2 ^ nat (e - ?q)) :: rat) \<le> of_int (rne (x / 2 powi ?q))"
    by (simp only: of_int_le_iff)
  then show ?thesis
    unfolding round_pos_def e by (intro mult_right_mono) simp_all
qed

lemma round_pos_mono:
  assumes "0 < x" "x \<le> y"
  shows "round_pos x \<le> round_pos y"
proof (cases "quantum x = quantum y")
  case True
  have "x / 2 powi quantum y \<le> y / 2 powi quantum y"
    using assms(2) by (simp add: divide_right_mono)
  then have "rne (x / 2 powi quantum y) \<le> rne (y / 2 powi quantum y)" by (rule rne_mono)
  then have "(of_int (rne (x / 2 powi quantum y)) :: rat) \<le> of_int (rne (y / 2 powi quantum y))"
    by (simp only: of_int_le_iff)
  then show ?thesis
    unfolding round_pos_def True by (intro mult_right_mono) simp_all
next
  case False
  have ypos: "0 < y" using assms by simp
  have lt: "quantum x < quantum y"
    using False quantum_mono [OF assms] by simp
  then have qy: "quantum y = ilog2 y - 52" and il: "ilog2 x < ilog2 y"
    by (auto simp: quantum_def)
  let ?e = "ilog2 y"
  have "x < 2 powi (ilog2 x + 1)" by (rule ilog2_bounds(2) [OF assms(1)])
  also have "\<dots> \<le> 2 powi ?e" using il by (intro power_int_increasing) simp_all
  finally have "x \<le> 2 powi ?e" by simp
  moreover have "quantum x \<le> ?e" using lt qy by simp
  ultimately have "round_pos x \<le> 2 powi ?e"
    by (rule round_pos_le_power [OF assms(1)])
  also have "\<dots> \<le> round_pos y"
    using ypos ilog2_bounds(1) [OF ypos] by (rule round_pos_ge_power) (simp add: qy)
  finally show ?thesis .
qed

lemma round_even_0 [simp]: "round_even 0 = 0"
  by (simp add: round_even_def)

lemma round_even_nonneg: "0 \<le> x \<Longrightarrow> 0 \<le> round_even x"
  using round_pos_nonneg [of x] by (auto simp: round_even_def)

lemma round_even_nonpos: "x \<le> 0 \<Longrightarrow> round_even x \<le> 0"
  using round_pos_nonneg [of "- x"] by (auto simp: round_even_def)

lemma round_even_minus: "round_even (- x) = - round_even x"
  by (simp add: round_even_def)

lemma round_even_mono:
  assumes "x \<le> y"
  shows "round_even x \<le> round_even y"
proof -
  consider "0 < x" | "x \<le> 0" "0 \<le> y" | "y < 0" by linarith
  then show ?thesis
  proof cases
    case 1
    then show ?thesis using assms round_pos_mono [of x y] by (simp add: round_even_def)
  next
    case 2
    then show ?thesis
      using round_even_nonpos [of x] round_even_nonneg [of y] by simp
  next
    case 3
    then have "round_pos (- y) \<le> round_pos (- x)"
      using assms by (intro round_pos_mono) simp_all
    then show ?thesis using 3 assms by (simp add: round_even_def)
  qed
qed

text \<open>
  A rational \<open>m \<sqdot> 2\<^sup>q\<close> with \<open>|m| \<le> 2\<^sup>5\<^sup>3\<close> and \<open>q \<ge> -1074\<close> is a double: rounding leaves it
  as it is.
\<close>

lemma round_pos_exact:
  assumes "0 < m" "m < 2 ^ 53" "- 1074 \<le> q"
  shows "round_pos (of_int m * 2 powi q) = of_int m * 2 powi q"
proof -
  let ?x = "of_int m * 2 powi q :: rat"
  have pos: "0 < ?x" using assms(1) by simp
  have "(of_int m :: rat) < of_int (2 ^ 53)"
    using assms(2) by (simp only: of_int_less_iff)
  then have "?x < of_int (2 ^ 53) * 2 powi q"
    by (intro mult_strict_right_mono) simp_all
  also have "\<dots> = 2 powi (53 + q)"
    by (simp add: power_int_add)
  finally have "2 powi ilog2 ?x < (2::rat) powi (53 + q)"
    using ilog2_bounds(1) [OF pos] by simp
  then have "ilog2 ?x < 53 + q"
    by (metis power_int_increasing not_le one_le_numeral)
  then have qx: "quantum ?x \<le> q" using assms(3) by (simp add: quantum_def)
  define n where "n = nat (q - quantum ?x)"
  have split: "(2::rat) powi q = of_int (2 ^ n) * 2 powi quantum ?x"
  proof -
    have "(2::rat) powi q = 2 powi (q - quantum ?x) * 2 powi quantum ?x"
      by (simp flip: power_int_add)
    also have "(2::rat) powi (q - quantum ?x) = of_int (2 ^ n)"
      unfolding n_def using qx by (intro two_powi_nat) simp
    finally show ?thesis .
  qed
  have "?x / 2 powi quantum ?x = of_int m * of_int (2 ^ n)"
    by (subst split) simp
  also have "\<dots> = of_int (m * 2 ^ n)" by simp
  finally have "rne (?x / 2 powi quantum ?x) = m * 2 ^ n" by (simp only: rne_of_int)
  then have "round_pos ?x = of_int (m * 2 ^ n) * 2 powi quantum ?x"
    by (simp only: round_pos_def)
  also have "\<dots> = of_int m * (of_int (2 ^ n) * 2 powi quantum ?x)" by simp
  also have "\<dots> = ?x" by (simp only: split [symmetric])
  finally show ?thesis .
qed

lemma round_even_exact:
  assumes "\<bar>m\<bar> < 2 ^ 53" "- 1074 \<le> q"
  shows "round_even (of_int m * 2 powi q) = of_int m * 2 powi q"
proof -
  consider "m = 0" | "0 < m" | "m < 0" by linarith
  then show ?thesis
  proof cases
    case 1
    then show ?thesis by simp
  next
    case 2
    then have "0 < (of_int m * 2 powi q :: rat)" by simp
    then show ?thesis
      using round_pos_exact [of m q] 2 assms by (simp add: round_even_def)
  next
    case 3
    then have neg: "(of_int m * 2 powi q :: rat) < 0"
      by (simp add: mult_less_0_iff)
    have "round_pos (of_int (- m) * 2 powi q) = of_int (- m) * 2 powi q"
      using 3 assms by (intro round_pos_exact) simp_all
    then show ?thesis
      using neg by (simp add: round_even_def)
  qed
qed

lemma round_even_of_int:
  assumes "\<bar>n\<bar> < 2 ^ 53"
  shows "round_even (of_int n) = of_int n"
  using round_even_exact [OF assms, of 0] by simp

section \<open>Floats: results of the operations\<close>

lemma to_double_finite:
  assumes "\<bar>round_even x\<bar> < 2 ^ 1024"
  shows "to_double x = Finite (round_even x)"
proof (cases "round_even x = 0")
  case True
  then show ?thesis by (simp add: to_double_def)
next
  case False
  then have "0 < \<bar>round_even x\<bar>" by simp
  then have "1024 \<le> ilog2 \<bar>round_even x\<bar> \<longleftrightarrow> 2 powi 1024 \<le> \<bar>round_even x\<bar>"
    by (rule ilog2_ge_iff)
  with assms have "\<not> 1024 \<le> ilog2 \<bar>round_even x\<bar>" by simp
  with False show ?thesis by (simp add: to_double_def Let_def)
qed

lemma to_double_Finite_D: "to_double x = Finite r \<Longrightarrow> r = round_even x"
  by (auto simp: to_double_def Let_def split: if_splits)

lemma to_double_bounded:
  assumes "of_int lo \<le> x" "x \<le> of_int hi" "\<bar>lo\<bar> < 2 ^ 53" "\<bar>hi\<bar> < 2 ^ 53"
  shows "to_double x = Finite (round_even x)"
    and "of_int lo \<le> round_even x" and "round_even x \<le> of_int hi"
proof -
  show lo: "of_int lo \<le> round_even x"
    using round_even_mono [OF assms(1)] round_even_of_int [OF assms(3)] by simp
  show hi: "round_even x \<le> of_int hi"
    using round_even_mono [OF assms(2)] round_even_of_int [OF assms(4)] by simp
  have "(of_int \<bar>lo\<bar> :: rat) < of_int (2 ^ 53)" "(of_int \<bar>hi\<bar> :: rat) < of_int (2 ^ 53)"
    using assms(3,4) by (simp_all only: of_int_less_iff)
  then have "- (2 ^ 53) < (of_int lo :: rat)" "(of_int hi :: rat) < 2 ^ 53"
    by simp_all
  with lo hi have "\<bar>round_even x\<bar> < 2 ^ 53" by simp
  also have "(2 ^ 53 :: rat) < 2 ^ 1024" by (rule power_strict_increasing) simp_all
  finally show "to_double x = Finite (round_even x)" by (rule to_double_finite)
qed

lemma float_of_int_D: "float_of_int n = Inr f \<Longrightarrow> f = Finite (round_even (of_int n))"
proof -
  assume a: "float_of_int n = Inr f"
  then obtain r where r: "to_double (of_int n) = Finite r" "f = Finite r"
    by (auto simp: float_of_int_def split: pyfloat.splits)
  from to_double_Finite_D [OF r(1)] r(2) show ?thesis by simp
qed

lemma float_of_int_exact:
  assumes "\<bar>n\<bar> < 2 ^ 53"
  shows "float_of_int n = Inr (Finite (of_int n))"
  using to_double_bounded(1) [of n "of_int n" n] assms
  by (simp add: float_of_int_def round_even_of_int)

lemma py_int_mono:
  assumes "py_int (Finite x) = Inr a" "py_int (Finite y) = Inr b" "x \<le> y"
  shows "a \<le> b"
proof -
  have fl: "\<lfloor>x\<rfloor> \<le> \<lfloor>y\<rfloor>" and ce: "\<lceil>x\<rceil> \<le> \<lceil>y\<rceil>"
    using assms(3) by (simp_all add: floor_mono ceiling_mono)
  have mixed: "\<lceil>x\<rceil> \<le> \<lfloor>y\<rfloor>" if "\<not> 0 \<le> x" "0 \<le> y"
  proof -
    have "\<lceil>x\<rceil> \<le> 0" using that(1) by (simp add: ceiling_le_iff)
    moreover have "0 \<le> \<lfloor>y\<rfloor>" using that(2) by simp
    ultimately show ?thesis by linarith
  qed
  consider "0 \<le> x" | "\<not> 0 \<le> x" "0 \<le> y" | "\<not> 0 \<le> y"
    by blast
  then show ?thesis
  proof cases
    case 1
    then have "0 \<le> y" using assms(3) by simp
    with 1 assms(1,2) fl show ?thesis by simp
  next
    case 2
    with assms(1,2) mixed show ?thesis by simp
  next
    case 3
    then have "\<not> 0 \<le> x" using assms(3) by simp
    with 3 assms(1,2) ce show ?thesis by simp
  qed
qed

section \<open>The alpha byte of a fill colour\<close>

lemma clamp_unit:
  "clamp v (Finite 0) (Finite 1) =
     (case v of Finite x \<Rightarrow> Finite (max 0 (min x 1)) | PosInf \<Rightarrow> Finite 1 | _ \<Rightarrow> Finite 0)"
  by (cases v) (auto simp: clamp_def py_min_def py_max_def)

lemma alpha_of_unit:
  assumes "0 \<le> y" "y \<le> 1"
  shows "py_int (to_double (y * 255)) = Inr \<lfloor>round_even (y * 255)\<rfloor>"
    and "0 \<le> \<lfloor>round_even (y * 255)\<rfloor>" and "\<lfloor>round_even (y * 255)\<rfloor> \<le> 255"
proof -
  have b: "of_int 0 \<le> y * 255" "y * 255 \<le> of_int 255"
    using assms by simp_all
  note r = to_double_bounded [OF b]
  have lo: "0 \<le> round_even (y * 255)" and hi: "round_even (y * 255) \<le> 255"
    using r(2,3) by simp_all
  show "py_int (to_double (y * 255)) = Inr \<lfloor>round_even (y * 255)\<rfloor>"
    using r(1) lo by simp
  show "0 \<le> \<lfloor>round_even (y * 255)\<rfloor>" using lo by simp
  show "\<lfloor>round_even (y * 255)\<rfloor> \<le> 255" using hi by (simp add: floor_le_iff)
qed

lemma round_even_255: "round_even 255 = 255"
  using round_even_of_int [of 255] by simp

lemma hex_to_rgba_alpha:
  assumes "hex_to_rgba E hex_color alpha = Inr (r, g, b, a)"
  shows "0 \<le> a" and "a \<le> 255"
    and "alpha = Finite x \<Longrightarrow> a = \<lfloor>round_even (max 0 (min x 1) * 255)\<rfloor>"
    and "alpha = Finite 1 \<or> flt (Finite 1) alpha \<Longrightarrow> a = 255"
    and "\<not> flt (Finite 0) alpha \<Longrightarrow> a = 0"
proof -
  have "\<exists>y. clamp alpha (Finite 0) (Finite 1) = Finite y \<and> 0 \<le> y \<and> y \<le> 1 \<and>
      (\<forall>x. alpha = Finite x \<longrightarrow> y = max 0 (min x 1)) \<and>
      (alpha = Finite 1 \<or> flt (Finite 1) alpha \<longrightarrow> y = 1) \<and>
      (\<not> flt (Finite 0) alpha \<longrightarrow> y = 0)"
    by (cases alpha) (auto simp: clamp_unit)
  then obtain y where y: "clamp alpha (Finite 0) (Finite 1) = Finite y" "0 \<le> y" "y \<le> 1"
    and fin: "\<And>x. alpha = Finite x \<Longrightarrow> y = max 0 (min x 1)"
    and one: "alpha = Finite 1 \<or> flt (Finite 1) alpha \<Longrightarrow> y = 1"
    and zero: "\<not> flt (Finite 0) alpha \<Longrightarrow> y = 0"
    by blast
  from assms have a: "a = \<lfloor>round_even (y * 255)\<rfloor>"
    by (auto simp: hex_to_rgba_def bind_err_def y(1) alpha_of_unit(1) [OF y(2,3)]
        split: sum.splits prod.splits)
  show "0 \<le> a" "a \<le> 255"
    using alpha_of_unit(2,3) [OF y(2,3)] by (simp_all add: a)
  show "a = \<lfloor>round_even (max 0 (min x 1) * 255)\<rfloor>" if "alpha = Finite x"
    using fin [OF that] by (simp add: a)
  show "a = 255" if "alpha = Finite 1 \<or> flt (Finite 1) alpha"
    using one [OF that] by (simp add: a round_even_255)
  show "a = 0" if "\<not> flt (Finite 0) alpha"
    using zero [OF that] by (simp add: a)
qed

section \<open>Shapes of an overlay layer\<close>

lemma shapes_of_draws: "shapes_of (foldl (\<lambda>img s. Draw s img) base shapes) = shapes_of base @ shapes"
  by (induction shapes arbitrary: base) simp_all

lemma overlay_shapes_fill:
  assumes "overlay_shapes layer rect width height color = Inr shapes" "s \<in> set shapes"
  shows "shape_fill s = color"
  using assms
  by (auto simp: overlay_shapes_def banner_shapes_def bind_err_def Let_def
      split: if_splits sum.splits)

lemma render_overlay_layer_shapes:
  assumes "render_overlay_layer E self layer = Inr img"
  shows "\<exists>color. overlay_fill E layer = Inr color \<and> (\<forall>s \<in> set (shapes_of img). shape_fill s = color)"
proof -
  from assms obtain width height x y color shapes where
    color: "hex_to_rgba E (overlay_color layer) (overlay_opacity layer) = Inr color"
    and shapes: "overlay_shapes layer (overlay_rect x y width height) width height color = Inr shapes"
    and img: "shapes_of img =
      shapes_of (foldl (\<lambda>img s. Draw s img) (New (base_width self) (base_height self) (0, 0, 0, 0)) shapes)"
    by (auto simp: render_overlay_layer_def bind_err_def Let_def split: sum.splits if_splits)
  have "shapes_of img = shapes"
    by (simp add: img shapes_of_draws)
  with overlay_shapes_fill [OF shapes] color show ?thesis
    by (auto simp: overlay_fill_def)
qed

section \<open>Claim C2: the alpha byte of an overlay shape\<close>

lemma example_getrgb_ff3838: "example_getrgb ''#ff3838'' = Inr (255, 56, 56, 255)"
  by (simp add: example_getrgb_def hex_byte_def hex_digit_def)

lemma alpha_of_two: "py_int (fmul (clamp (Finite 2) (Finite 0) (Finite 1)) (Finite 255)) = Inr 255"
  by code_simp

lemma unclamped_two: "py_int (fmul (Finite 2) (Finite 255)) = Inr 510"
  by code_simp

lemma alpha_of_default: "py_int (fmul (clamp (float_lit (17 / 20)) (Finite 0) (Finite 1)) (Finite 255)) = Inr 216"
  by code_simp

lemma example_overlay_fill:
  "overlay_fill example_env ((default_overlay_layer ''o1'')\<lparr>overlay_opacity := Finite 2\<rparr>)
     = Inr (255, 56, 56, 255)"
  "overlay_fill example_env (default_overlay_layer ''o1'') = Inr (255, 56, 56, 216)"
  by (simp_all add: overlay_fill_def hex_to_rgba_def example_env_def default_overlay_layer_def
      example_getrgb_ff3838 bind_err_def alpha_of_two alpha_of_default del: fmul.simps)

text \<open>
  C2 as stated: the alpha byte is \<open>opacity \<sqdot> 255\<close>, unclamped. For the default overlay layer
  with opacity \<open>2.0\<close> the fill colour has alpha 255, where \<open>int(2.0 * 255)\<close> is 510:
  \<open>hex_to_rgba\<close> clamps the opacity to \<open>[0, 1]\<close> first.
\<close>

theorem overlay_alpha_counterexample:
  "overlay_fill example_env ((default_overlay_layer ''o1'')\<lparr>overlay_opacity := Finite 2\<rparr>)
     = Inr (255, 56, 56, 255) \<and>
   py_int (fmul (Finite 2) (Finite 255)) = Inr 510"
  using example_overlay_fill(1) unclamped_two by (rule conjI)

text \<open>
  C2 (amended): the alpha byte of the fill colour is \<open>int(clamp(opacity, 0, 1) \<sqdot> 255)\<close>: it
  lies in \<open>0..255\<close>; an opacity of 1 or more gives 255, an opacity that is not above 0 (NaN
  included) gives 0, and a finite opacity gives the product of the clamped opacity and
  255, rounded to a double and truncated. Every shape the renderer draws for the layer
  is filled with that colour.
\<close>

theorem overlay_alpha_clamped:
  "(overlay_fill E layer = Inr (r, g, b, a) \<longrightarrow>
      0 \<le> a \<and> a \<le> 255 \<and>
      (\<forall>x. overlay_opacity layer = Finite x \<longrightarrow> a = \<lfloor>round_even (max 0 (min x 1) * 255)\<rfloor>) \<and>
      (overlay_opacity layer = Finite 1 \<or> flt (Finite 1) (overlay_opacity layer) \<longrightarrow> a = 255) \<and>
      (\<not> flt (Finite 0) (overlay_opacity layer) \<longrightarrow> a = 0)) \<and>
   (render_overlay_layer E self layer = Inr img \<longrightarrow>
      (\<exists>color. overlay_fill E layer = Inr color \<and>
         (\<forall>s \<in> set (shapes_of img). shape_fill s = color)))"
proof (intro conjI impI allI)
  assume fill: "overlay_fill E layer = Inr (r, g, b, a)"
  then have h: "hex_to_rgba E (overlay_color layer) (overlay_opacity layer) = Inr (r, g, b, a)"
    by (simp add: overlay_fill_def)
  show "0 \<le> a" "a \<le> 255"
    by (rule hex_to_rgba_alpha [OF h])+
  show "a = \<lfloor>round_even (max 0 (min x 1) * 255)\<rfloor>" if "overlay_opacity layer = Finite x" for x
    using that by (rule hex_to_rgba_alpha(3) [OF h])
  show "a = 255" if "overlay_opacity layer = Finite 1 \<or> flt (Finite 1) (overlay_opacity layer)"
    using that by (rule hex_to_rgba_alpha(4) [OF h])
  show "a = 0" if "\<not> flt (Finite 0) (overlay_opacity layer)"
    using that by (rule hex_to_rgba_alpha(5) [OF h])
next
  assume "render_overlay_layer E self layer = Inr img"
  then show "\<exists>color. overlay_fill E layer = Inr color \<and>
      (\<forall>s \<in> set (shapes_of img). shape_fill s = color)"
    by (rule render_overlay_layer_shapes)
qed

lemma float_lit_0: "float_lit 0 = Finite 0"
  by (simp add: float_lit_def to_double_def)

lemma default_overlay_geometry:
  "scaled_int 1280 (float_lit (4 / 5)) = Inr 1024"
  "scaled_int 720 (float_lit (1 / 4)) = Inr 180"
  "scaled_int 1280 (float_lit (1 / 2)) = Inr 640"
  "scaled_int 720 (float_lit (3 / 10)) = Inr 216"
  by code_simp+

lemma example_render_overlay_layer:
  "render_overlay_layer example_env init_designer (default_overlay_layer ''o1'')
     = Inr (Draw (RoundedRectangle [128, 126, 1152, 306] 40 (255, 56, 56, 216))
         (New 1280 720 (0, 0, 0, 0)))"
proof -
  have fill: "hex_to_rgba example_env ''#ff3838'' (float_lit (17 / 20)) = Inr (255, 56, 56, 216)"
    using example_overlay_fill(2) by (simp add: overlay_fill_def default_overlay_layer_def)
  show ?thesis
    by (simp add: render_overlay_layer_def init_designer_def default_overlay_layer_def
        default_overlay_geometry fill float_lit_0 overlay_rect_def overlay_shapes_def bind_err_def)
qed

theorem overlay_alpha_clamped_witness:
  "overlay_fill example_env (default_overlay_layer ''o1'') = Inr (255, 56, 56, 216) \<and>
   overlay_fill example_env ((default_overlay_layer ''o1'')\<lparr>overlay_opacity := Finite 2\<rparr>)
     = Inr (255, 56, 56, 255) \<and>
   flt (Finite 1) (overlay_opacity ((default_overlay_layer ''o1'')\<lparr>overlay_opacity := Finite 2\<rparr>)) \<and>
   render_overlay_layer example_env init_designer (default_overlay_layer ''o1'')
     = Inr (Draw (RoundedRectangle [128, 126, 1152, 306] 40 (255, 56, 56, 216))
         (New 1280 720 (0, 0, 0, 0))) \<and>
   (\<exists>color. overlay_fill example_env (default_overlay_layer ''o1'') = Inr color \<and>
      shape_fill (RoundedRectangle [128, 126, 1152, 306] 40 (255, 56, 56, 216)) = color)"
proof -
  let ?img = "Draw (RoundedRectangle [128, 126, 1152, 306] 40 (255, 56, 56, 216))
      (New 1280 720 (0, 0, 0, 0))"
  note w = overlay_alpha_clamped [where E = example_env and layer = "default_overlay_layer ''o1''"
      and r = 255 and g = 56 and b = 56 and a = 216 and self = init_designer and img = ?img]
  from w example_render_overlay_layer
  have "\<exists>color. overlay_fill example_env (default_overlay_layer ''o1'') = Inr color \<and>
      (\<forall>s \<in> set (shapes_of ?img). shape_fill s = color)"
    by blast
  then have "\<exists>color. overlay_fill example_env (default_overlay_layer ''o1'') = Inr color \<and>
      shape_fill (RoundedRectangle [128, 126, 1152, 306] 40 (255, 56, 56, 216)) = color"
    by simp
  then show ?thesis
    using example_overlay_fill example_render_overlay_layer by simp
qed

section \<open>Banner geometry\<close>

lemma float_lit_quarter: "float_lit (25 / 100) = Finite (1 / 4)"
  by code_simp

lemma float_lit_35: "float_lit (35 / 100) = Finite (6305039478318694 / 2 ^ 54)"
  by code_simp

lemma scaled_int_D:
  assumes "scaled_int n (Finite c) = Inr a"
  shows "py_int (Finite (round_even (round_even (of_int n) * c))) = Inr a"
proof -
  from assms obtain f where f: "float_of_int n = Inr f" and a: "py_int (fmul f (Finite c)) = Inr a"
    by (auto simp: scaled_int_def int_mul_float_def bind_err_def split: sum.splits)
  have f': "f = Finite (round_even (of_int n))" using f by (rule float_of_int_D)
  from a obtain r where r: "to_double (round_even (of_int n) * c) = Finite r"
    unfolding f' by (cases "to_double (round_even (of_int n) * c)") simp_all
  from to_double_Finite_D [OF r] a show ?thesis
    unfolding f' by (simp add: r)
qed

lemma scaled_int_exact:
  assumes "\<bar>n\<bar> < 2 ^ 53"
  shows "scaled_int n (Finite c) = py_int (to_double (of_int n * c))"
  by (simp add: scaled_int_def int_mul_float_def float_of_int_exact [OF assms] bind_err_def)

lemma scaled_int_mono:
  assumes "scaled_int n (Finite c) = Inr a" "scaled_int n (Finite d) = Inr b"
    and "0 \<le> n" "0 \<le> c" "c \<le> d"
  shows "0 \<le> a" and "a \<le> b"
proof -
  let ?h = "round_even (of_int n)"
  have h: "0 \<le> ?h" using assms(3) by (intro round_even_nonneg) simp
  have "?h * c \<le> ?h * d" using assms(5) h by (rule mult_left_mono)
  then have "round_even (?h * c) \<le> round_even (?h * d)" by (rule round_even_mono)
  with scaled_int_D [OF assms(1)] scaled_int_D [OF assms(2)] show "a \<le> b"
    by (rule py_int_mono)
  have "0 \<le> round_even (?h * c)" using h assms(4) by (intro round_even_nonneg) simp
  with scaled_int_D [OF assms(1)] show "0 \<le> a" by auto
qed

text \<open>\<open>int(height * 0.25)\<close> is the quarter of the height, rounded down.\<close>

lemma quarter_exact:
  assumes "0 \<le> h" "h < 2 ^ 53"
  shows "scaled_int h (float_lit (25 / 100)) = Inr (h div 4)"
proof -
  let ?x = "of_int h / 4 :: rat"
  have abs: "\<bar>h\<bar> < 2 ^ 53" and zero: "\<bar>0 :: int\<bar> < 2 ^ 53" using assms by simp_all
  have "?x = of_int h * 2 powi (- 2)"
    by (simp add: power_int_minus_divide)
  then have r: "round_even ?x = ?x"
    using round_even_exact [OF abs, of "- 2"] by simp
  have b: "of_int 0 \<le> ?x" "?x \<le> of_int h" using assms(1) by simp_all
  have t: "to_double ?x = Finite ?x"
    using to_double_bounded(1) [OF b zero abs] by (simp only: r)
  have fl: "\<lfloor>?x\<rfloor> = h div 4"
    using floor_divide_of_int_eq [of h 4] by simp
  have "scaled_int h (Finite (1 / 4)) = py_int (to_double ?x)"
    using scaled_int_exact [OF abs, of "1 / 4"] by simp
  also have "\<dots> = Inr (h div 4)"
    using assms(1) by (simp add: t fl)
  finally show ?thesis by (simp only: float_lit_quarter)
qed

text \<open>
  \<open>int(height * 0.35)\<close> is 35% of the height rounded down, or one less: the double \<open>0.35\<close>
  lies just below 35/100, so a product that would be a whole number can fall short of it.
\<close>

lemma double_35:
  fixes c :: rat
  assumes "c = 6305039478318694 / 2 ^ 54"
  shows "0 \<le> c" "c \<le> 1" "c \<le> 7 / 20" "c = 7 / 20 - 1 / (5 * 2 ^ 53)"
  using assms by simp_all

lemma div_100_bounds:
  fixes h :: int
  shows "20 * ((35 * h) div 100) \<le> 7 * h" "7 * h \<le> 20 * ((35 * h) div 100) + 19"
  using div_mult_mod_eq [of "35 * h" 100] pos_mod_bound [of 100 "35 * h"]
    pos_mod_sign [of 100 "35 * h"]
  by linarith+

lemma thirty_seconds:
  fixes j :: int
  shows "(of_int j + 31 / 32 :: rat) = of_int (32 * j + 31) * 2 powi (- 5)"
    and "(of_int j - 1 / 32 :: rat) = of_int (32 * j - 1) * 2 powi (- 5)"
  by (simp_all add: power_int_minus_divide)

lemma triangle_height_bounds:
  assumes "0 \<le> h" "h < 2 ^ 48"
  shows "\<exists>t. scaled_int h (float_lit (35 / 100)) = Inr t
    \<and> (35 * h) div 100 - 1 \<le> t \<and> t \<le> (35 * h) div 100"
proof -
  define c :: rat where "c = 6305039478318694 / 2 ^ 54"
  define j where "j = (35 * h) div 100"
  define x where "x = of_int h * c"
  note c = double_35 [OF c_def]
  have abs: "\<bar>h\<bar> < 2 ^ 53" and zero: "\<bar>0 :: int\<bar> < 2 ^ 53" using assms by simp_all
  have h0: "(0::rat) \<le> of_int h" using assms(1) by simp
  have "(of_int h :: rat) < of_int (2 ^ 48)" using assms(2) by (simp only: of_int_less_iff)
  then have h48: "(of_int h :: rat) < 2 ^ 48" by simp
  have j0: "0 \<le> j" using assms(1) by (simp add: j_def)
  have jh: "j \<le> h" using div_100_bounds(1) [of h] assms(1) unfolding j_def by linarith
  have "(of_int (20 * j) :: rat) \<le> of_int (7 * h)" "(of_int (7 * h) :: rat) \<le> of_int (20 * j + 19)"
    using div_100_bounds [of h] unfolding j_def by (simp_all only: of_int_le_iff)
  then have jl: "(of_int j :: rat) \<le> of_int h * (7 / 20)"
    and ju: "of_int h * (7 / 20) \<le> (of_int j :: rat) + 19 / 20"
    by simp_all
  have x0: "0 \<le> x" unfolding x_def using h0 c(1) by (rule mult_nonneg_nonneg)
  have xh: "x \<le> of_int h" unfolding x_def using c(2) h0 by (rule mult_left_le)
  have x35: "x \<le> of_int h * (7 / 20)" unfolding x_def using c(3) h0 by (rule mult_left_mono)
  have xd: "x = of_int h * (7 / 20) - of_int h * (1 / (5 * 2 ^ 53))"
    unfolding x_def by (subst c(4)) (rule right_diff_distrib)
  have t: "to_double x = Finite (round_even x)"
    using to_double_bounded(1) [of 0 x h] x0 xh zero abs by simp
  have r0: "0 \<le> round_even x" using x0 by (rule round_even_nonneg)
  have upper: "round_even x \<le> of_int j + 31 / 32"
  proof -
    have "x \<le> of_int j + 31 / 32" using x35 ju by linarith
    then have "round_even x \<le> round_even (of_int j + 31 / 32)"
      by (rule round_even_mono)
    also have "\<dots> = of_int j + 31 / 32"
      unfolding thirty_seconds(1) using j0 jh assms(2) by (intro round_even_exact) simp_all
    finally show ?thesis .
  qed
  have lower: "of_int j - 1 / 32 \<le> round_even x"
  proof -
    have "of_int h * (1 / (5 * 2 ^ 53)) \<le> (1 / 32 :: rat)" using h48 by simp
    then have "of_int j - 1 / 32 \<le> x" using jl unfolding xd by linarith
    then have "round_even (of_int j - 1 / 32) \<le> round_even x"
      by (rule round_even_mono)
    moreover have "round_even (of_int j - 1 / 32) = of_int j - 1 / 32"
      unfolding thirty_seconds(2) using j0 jh assms(2) by (intro round_even_exact) simp_all
    ultimately show ?thesis by simp
  qed
  have "scaled_int h (float_lit (35 / 100)) = py_int (to_double x)"
    unfolding x_def c_def float_lit_35 using abs by (rule scaled_int_exact)
  also have "\<dots> = Inr \<lfloor>round_even x\<rfloor>" using r0 by (simp add: t)
  finally have s: "scaled_int h (float_lit (35 / 100)) = Inr \<lfloor>round_even x\<rfloor>" .
  have "round_even x < of_int (j + 1)" using upper by simp
  then have "\<lfloor>round_even x\<rfloor> < j + 1" by (simp only: floor_less_iff)
  moreover have "of_int (j - 1) \<le> round_even x" using lower by simp
  then have "j - 1 \<le> \<lfloor>round_even x\<rfloor>" by (simp only: le_floor_iff)
  ultimately have "j - 1 \<le> \<lfloor>round_even x\<rfloor> \<and> \<lfloor>round_even x\<rfloor> \<le> j" by simp
  with s show ?thesis unfolding j_def by blast
qed

lemma banner_shapes_D:
  assumes "banner_shapes rect width height rounded color = Inr shapes"
  shows "\<exists>quarter triangle_height.
    scaled_int height (float_lit (25 / 100)) = Inr quarter \<and>
    scaled_int height (float_lit (35 / 100)) = Inr triangle_height \<and>
    shapes =
      [RoundedRectangle [rect ! 0, rect ! 1, rect ! 2, rect ! 3 - quarter] rounded color,
       Polygon [(rect ! 0, rect ! 3 - triangle_height), (rect ! 0 + width div 4, rect ! 3),
                (rect ! 0 + width div 2, rect ! 3 - triangle_height)] color,
       Polygon [(rect ! 2, rect ! 3 - triangle_height), (rect ! 2 - width div 4, rect ! 3),
                (rect ! 2 - width div 2, rect ! 3 - triangle_height)] color]"
  using assms unfolding banner_shapes_def bind_err_def Let_def
  by (auto split: sum.splits)

lemma banner_heights:
  assumes "scaled_int height (float_lit (25 / 100)) = Inr quarter"
    and "scaled_int height (float_lit (35 / 100)) = Inr triangle_height"
  shows "0 \<le> height \<Longrightarrow> 0 \<le> quarter \<and> quarter \<le> triangle_height"
    and "0 \<le> height \<and> height < 2 ^ 48 \<Longrightarrow>
      quarter = height div 4 \<and> (35 * height) div 100 - 1 \<le> triangle_height \<and>
      triangle_height \<le> (35 * height) div 100"
proof -
  have le: "(1 / 4 :: rat) \<le> 6305039478318694 / 2 ^ 54" by simp
  show "0 \<le> quarter \<and> quarter \<le> triangle_height" if "0 \<le> height"
    using scaled_int_mono [OF assms [unfolded float_lit_quarter float_lit_35] that _ le]
    by simp
  show "quarter = height div 4 \<and> (35 * height) div 100 - 1 \<le> triangle_height \<and>
      triangle_height \<le> (35 * height) div 100" if small: "0 \<le> height \<and> height < 2 ^ 48"
  proof -
    have "height < 2 ^ 53" using small by simp
    then have q: "quarter = height div 4"
      using quarter_exact [of height] small assms(1) by simp
    from small have "\<exists>t. scaled_int height (float_lit (35 / 100)) = Inr t
        \<and> (35 * height) div 100 - 1 \<le> t \<and> t \<le> (35 * height) div 100"
      by (intro triangle_height_bounds) simp_all
    then have "(35 * height) div 100 - 1 \<le> triangle_height \<and>
        triangle_height \<le> (35 * height) div 100"
      using assms(2) by auto
    with q show ?thesis by simp
  qed
qed

lemma render_overlay_layer_banner:
  assumes "overlay_mode layer = ''banner''" "render_overlay_layer E self layer = Inr img"
  shows "\<exists>width height x y color.
    scaled_int (base_width self) (overlay_width layer) = Inr width \<and>
    scaled_int (base_height self) (overlay_height layer) = Inr height \<and>
    scaled_int (base_width self) (overlay_position_x layer) = Inr x \<and>
    scaled_int (base_height self) (overlay_position_y layer) = Inr y \<and>
    overlay_fill E layer = Inr color \<and>
    banner_shapes (overlay_rect x y width height) width height (overlay_rounded layer) color
      = Inr (shapes_of img)"
proof -
  from assms(2) obtain width height x y color shapes where
    geo: "scaled_int (base_width self) (overlay_width layer) = Inr width"
      "scaled_int (base_height self) (overlay_height layer) = Inr height"
      "scaled_int (base_width self) (overlay_position_x layer) = Inr x"
      "scaled_int (base_height self) (overlay_position_y layer) = Inr y"
    and color: "hex_to_rgba E (overlay_color layer) (overlay_opacity layer) = Inr color"
    and shapes: "overlay_shapes layer (overlay_rect x y width height) width height color = Inr shapes"
    and img: "shapes_of img =
      shapes_of (foldl (\<lambda>img s. Draw s img) (New (base_width self) (base_height self) (0, 0, 0, 0)) shapes)"
    by (auto simp: render_overlay_layer_def bind_err_def Let_def split: sum.splits if_splits)
  have "shapes_of img = shapes" by (simp add: img shapes_of_draws)
  moreover have "banner_shapes (overlay_rect x y width height) width height (overlay_rounded layer) color
      = Inr shapes"
    using shapes assms(1) by (simp add: overlay_shapes_def)
  ultimately show ?thesis
    using geo color by (auto simp: overlay_fill_def)
qed

section \<open>Claim C1: the banner shape\<close>

lemma default_banner_geometry:
  "scaled_int 1280 (float_lit (9 / 10)) = Inr 1152"
  "scaled_int 720 (float_lit (3 / 10)) = Inr 216"
  "scaled_int 1280 (float_lit (1 / 2)) = Inr 640"
  "scaled_int 720 (float_lit (3 / 5)) = Inr 432"
  "scaled_int 216 (float_lit (1 / 4)) = Inr 54"
  "scaled_int 216 (float_lit (7 / 20)) = Inr 75"
  by code_simp+

lemma default_banner_alpha:
  "py_int (fmul (clamp (float_lit (22 / 25)) (Finite 0) (Finite 1)) (Finite 255)) = Inr 224"
  by code_simp

lemma default_banner_shapes:
  "banner_shapes [64, 324, 1216, 540] 1152 216 40 (255, 56, 56, 224) =
     Inr [RoundedRectangle [64, 324, 1216, 486] 40 (255, 56, 56, 224),
          Polygon [(64, 465), (352, 540), (640, 465)] (255, 56, 56, 224),
          Polygon [(1216, 465), (928, 540), (640, 465)] (255, 56, 56, 224)]"
  by (simp add: banner_shapes_def bind_err_def default_banner_geometry)

lemma default_banner_render:
  "render_overlay_layer example_env init_designer (default_banner ''b'') =
     Inr (Rotate (Finite (- 2)) (640, 432)
       (Draw (Polygon [(1216, 465), (928, 540), (640, 465)] (255, 56, 56, 224))
       (Draw (Polygon [(64, 465), (352, 540), (640, 465)] (255, 56, 56, 224))
       (Draw (RoundedRectangle [64, 324, 1216, 486] 40 (255, 56, 56, 224))
         (New 1280 720 (0, 0, 0, 0))))))"
proof -
  have fill: "hex_to_rgba example_env ''#ff3838'' (float_lit (22 / 25)) = Inr (255, 56, 56, 224)"
    by (simp add: hex_to_rgba_def example_env_def example_getrgb_ff3838 bind_err_def
        default_banner_alpha del: fmul.simps)
  have rect: "overlay_rect 640 432 1152 216 = [64, 324, 1216, 540]"
    by (simp add: overlay_rect_def)
  show ?thesis
    by (simp add: render_overlay_layer_def init_designer_def default_banner_def
        default_overlay_layer_def default_banner_geometry fill rect overlay_shapes_def
        default_banner_shapes bind_err_def)
qed

text \<open>
  C1 as stated: the flags fill the bottom 25% of the height and no vertex of a triangle
  lies above the 75% line. The default banner on the 1280 by 720 canvas has the pixel
  rectangle \<open>[64, 324, 1216, 540]\<close> of height 216; its rounded rectangle ends at the 75%
  line \<open>y = 324 + 162 = 486\<close>, but the base vertices of both triangles are at \<open>y = 465\<close>, 21
  pixels above that line (\<open>y\<close> grows downward).
\<close>

theorem banner_triangle_counterexample:
  "render_overlay_layer example_env init_designer (default_banner ''b'') =
     Inr (Rotate (Finite (- 2)) (640, 432)
       (Draw (Polygon [(1216, 465), (928, 540), (640, 465)] (255, 56, 56, 224))
       (Draw (Polygon [(64, 465), (352, 540), (640, 465)] (255, 56, 56, 224))
       (Draw (RoundedRectangle [64, 324, 1216, 486] 40 (255, 56, 56, 224))
         (New 1280 720 (0, 0, 0, 0)))))) \<and>
   overlay_rect 640 432 1152 216 = [64, 324, 1216, 540] \<and>
   snd ((64 :: int), (465 :: int)) < 324 + (3 * 216) div 4"
  using default_banner_render by (simp add: overlay_rect_def)

text \<open>
  C1 (amended): the banner is a rounded rectangle from the top of the pixel rectangle
  down to \<open>int(0.25 \<sqdot> height)\<close> pixels above its bottom, and two triangles, one over the left
  half of the width and one over the right half, each with its apex on the bottom edge a
  quarter of the width in from the side, and its two base vertices \<open>int(0.35 \<sqdot> height)\<close>
  pixels above the bottom. For a height that is not negative the base vertices are at or
  above the lower edge of the rounded rectangle; \<open>int(0.25 \<sqdot> height)\<close> is the quarter of the
  height rounded down, and \<open>int(0.35 \<sqdot> height)\<close> is 35% of the height rounded down or one
  less.
\<close>

theorem banner_geometry:
  "(banner_shapes rect width height rounded color = Inr shapes \<longrightarrow>
      (\<exists>quarter triangle_height.
         scaled_int height (float_lit (25 / 100)) = Inr quarter \<and>
         scaled_int height (float_lit (35 / 100)) = Inr triangle_height \<and>
         shapes =
           [RoundedRectangle [rect ! 0, rect ! 1, rect ! 2, rect ! 3 - quarter] rounded color,
            Polygon [(rect ! 0, rect ! 3 - triangle_height), (rect ! 0 + width div 4, rect ! 3),
                     (rect ! 0 + width div 2, rect ! 3 - triangle_height)] color,
            Polygon [(rect ! 2, rect ! 3 - triangle_height), (rect ! 2 - width div 4, rect ! 3),
                     (rect ! 2 - width div 2, rect ! 3 - triangle_height)] color] \<and>
         (0 \<le> height \<longrightarrow> 0 \<le> quarter \<and> quarter \<le> triangle_height) \<and>
         (0 \<le> height \<and> height < 2 ^ 48 \<longrightarrow>
            quarter = height div 4 \<and> (35 * height) div 100 - 1 \<le> triangle_height \<and>
            triangle_height \<le> (35 * height) div 100))) \<and>
   (overlay_mode layer = ''banner'' \<and> render_overlay_layer E self layer = Inr img \<longrightarrow>
      (\<exists>width height x y color.
         scaled_int (base_width self) (overlay_width layer) = Inr width \<and>
         scaled_int (base_height self) (overlay_height layer) = Inr height \<and>
         scaled_int (base_width self) (overlay_position_x layer) = Inr x \<and>
         scaled_int (base_height self) (overlay_position_y layer) = Inr y \<and>
         overlay_fill E layer = Inr color \<and>
         banner_shapes (overlay_rect x y width height) width height (overlay_rounded layer) color
           = Inr (shapes_of img)))"
proof (intro conjI impI)
  assume "banner_shapes rect width height rounded color = Inr shapes"
  from banner_shapes_D [OF this] obtain quarter triangle_height where
    q: "scaled_int height (float_lit (25 / 100)) = Inr quarter"
    and t: "scaled_int height (float_lit (35 / 100)) = Inr triangle_height"
    and s: "shapes =
      [RoundedRectangle [rect ! 0, rect ! 1, rect ! 2, rect ! 3 - quarter] rounded color,
       Polygon [(rect ! 0, rect ! 3 - triangle_height), (rect ! 0 + width div 4, rect ! 3),
                (rect ! 0 + width div 2, rect ! 3 - triangle_height)] color,
       Polygon [(rect ! 2, rect ! 3 - triangle_height), (rect ! 2 - width div 4, rect ! 3),
                (rect ! 2 - width div 2, rect ! 3 - triangle_height)] color]"
    by blast
  from banner_heights [OF q t] q t s
  show "\<exists>quarter triangle_height.
      scaled_int height (float_lit (25 / 100)) = Inr quarter \<and>
      scaled_int height (float_lit (35 / 100)) = Inr triangle_height \<and>
      shapes =
        [RoundedRectangle [rect ! 0, rect ! 1, rect ! 2, rect ! 3 - quarter] rounded color,
         Polygon [(rect ! 0, rect ! 3 - triangle_height), (rect ! 0 + width div 4, rect ! 3),
                  (rect ! 0 + width div 2, rect ! 3 - triangle_height)] color,
         Polygon [(rect ! 2, rect ! 3 - triangle_height), (rect ! 2 - width div 4, rect ! 3),
                  (rect ! 2 - width div 2, rect ! 3 - triangle_height)] color] \<and>
      (0 \<le> height \<longrightarrow> 0 \<le> quarter \<and> quarter \<le> triangle_height) \<and>
      (0 \<le> height \<and> height < 2 ^ 48 \<longrightarrow>
         quarter = height div 4 \<and> (35 * height) div 100 - 1 \<le> triangle_height \<and>
         triangle_height \<le> (35 * height) div 100)"
    by blast
next
  assume "overlay_mode layer = ''banner'' \<and> render_overlay_layer E self layer = Inr img"
  then show "\<exists>width height x y color.
      scaled_int (base_width self) (overlay_width layer) = Inr width \<and>
      scaled_int (base_height self) (overlay_height layer) = Inr height \<and>
      scaled_int (base_width self) (overlay_position_x layer) = Inr x \<and>
      scaled_int (base_height self) (overlay_position_y layer) = Inr y \<and>
      overlay_fill E layer = Inr color \<and>
      banner_shapes (overlay_rect x y width height) width height (overlay_rounded layer) color
        = Inr (shapes_of img)"
    by (intro render_overlay_layer_banner) simp_all
qed

theorem banner_geometry_witness:
  "banner_shapes [64, 324, 1216, 540] 1152 216 40 (255, 56, 56, 224) =
     Inr [RoundedRectangle [64, 324, 1216, 486] 40 (255, 56, 56, 224),
          Polygon [(64, 465), (352, 540), (640, 465)] (255, 56, 56, 224),
          Polygon [(1216, 465), (928, 540), (640, 465)] (255, 56, 56, 224)] \<and>
   overlay_mode (default_banner ''b'') = ''banner'' \<and>
   (\<exists>quarter triangle_height.
      scaled_int 216 (float_lit (25 / 100)) = Inr quarter \<and>
      scaled_int 216 (float_lit (35 / 100)) = Inr triangle_height \<and>
      quarter = 54 \<and> 0 \<le> quarter \<and> quarter \<le> triangle_height \<and>
      74 \<le> triangle_height \<and> triangle_height \<le> 75) \<and>
   (\<exists>width height x y color.
      scaled_int 1280 (overlay_width (default_banner ''b'')) = Inr width \<and>
      scaled_int 720 (overlay_height (default_banner ''b'')) = Inr height \<and>
      scaled_int 1280 (overlay_position_x (default_banner ''b'')) = Inr x \<and>
      scaled_int 720 (overlay_position_y (default_banner ''b'')) = Inr y \<and>
      overlay_fill example_env (default_banner ''b'') = Inr color \<and>
      banner_shapes (overlay_rect x y width height) width height 40 color =
        Inr [RoundedRectangle [64, 324, 1216, 486] 40 (255, 56, 56, 224),
             Polygon [(64, 465), (352, 540), (640, 465)] (255, 56, 56, 224),
             Polygon [(1216, 465), (928, 540), (640, 465)] (255, 56, 56, 224)])"
proof -
  let ?shapes = "[RoundedRectangle [64, 324, 1216, 486] 40 (255, 56, 56, 224),
      Polygon [(64, 465), (352, 540), (640, 465)] (255, 56, 56, 224),
      Polygon [(1216, 465), (928, 540), (640, 465)] (255, 56, 56, 224)]"
  let ?img = "Rotate (Finite (- 2)) (640, 432)
      (Draw (Polygon [(1216, 465), (928, 540), (640, 465)] (255, 56, 56, 224))
      (Draw (Polygon [(64, 465), (352, 540), (640, 465)] (255, 56, 56, 224))
      (Draw (RoundedRectangle [64, 324, 1216, 486] 40 (255, 56, 56, 224))
        (New 1280 720 (0, 0, 0, 0)))))"
  note w = banner_geometry [where rect = "[64, 324, 1216, 540]" and width = 1152 and height = 216
      and rounded = 40 and color = "(255, 56, 56, 224)" and shapes = ?shapes
      and layer = "default_banner ''b''" and E = example_env and self = init_designer
      and img = ?img]
  have mode: "overlay_mode (default_banner ''b'') = ''banner''"
    and rounded: "overlay_rounded (default_banner ''b'') = 40"
    by (simp_all add: default_banner_def default_overlay_layer_def)
  have small: "(0 :: int) \<le> 216 \<and> (216 :: int) < 2 ^ 48" by simp
  from w default_banner_shapes obtain quarter triangle_height where
    h: "scaled_int 216 (float_lit (25 / 100)) = Inr quarter"
      "scaled_int 216 (float_lit (35 / 100)) = Inr triangle_height"
      "(0 :: int) \<le> 216 \<longrightarrow> 0 \<le> quarter \<and> quarter \<le> triangle_height"
      "(0 :: int) \<le> 216 \<and> (216 :: int) < 2 ^ 48 \<longrightarrow>
         quarter = 216 div 4 \<and> (35 * 216) div 100 - 1 \<le> triangle_height \<and>
         triangle_height \<le> (35 * 216) div 100"
    by blast
  from h(3,4) small have "quarter = 54 \<and> 0 \<le> quarter \<and> quarter \<le> triangle_height
      \<and> 74 \<le> triangle_height \<and> triangle_height \<le> 75"
    by simp
  with h(1,2) have first: "\<exists>quarter triangle_height.
      scaled_int 216 (float_lit (25 / 100)) = Inr quarter \<and>
      scaled_int 216 (float_lit (35 / 100)) = Inr triangle_height \<and>
      quarter = 54 \<and> 0 \<le> quarter \<and> quarter \<le> triangle_height \<and>
      74 \<le> triangle_height \<and> triangle_height \<le> 75"
    by blast
  from w mode default_banner_render
  have "\<exists>width height x y color.
      scaled_int (base_width init_designer) (overlay_width (default_banner ''b'')) = Inr width \<and>
      scaled_int (base_height init_designer) (overlay_height (default_banner ''b'')) = Inr height \<and>
      scaled_int (base_width init_designer) (overlay_position_x (default_banner ''b'')) = Inr x \<and>
      scaled_int (base_height init_designer) (overlay_position_y (default_banner ''b'')) = Inr y \<and>
      overlay_fill example_env (default_banner ''b'') = Inr color \<and>
      banner_shapes (overlay_rect x y width height) width height
        (overlay_rounded (default_banner ''b'')) color = Inr (shapes_of ?img)"
    by blast
  then have second: "\<exists>width height x y color.
      scaled_int 1280 (overlay_width (default_banner ''b'')) = Inr width \<and>
      scaled_int 720 (overlay_height (default_banner ''b'')) = Inr height \<and>
      scaled_int 1280 (overlay_position_x (default_banner ''b'')) = Inr x \<and>
      scaled_int 720 (overlay_position_y (default_banner ''b'')) = Inr y \<and>
      overlay_fill example_env (default_banner ''b'') = Inr color \<and>
      banner_shapes (overlay_rect x y width height) width height 40 color = Inr ?shapes"
    by (simp add: rounded init_designer_def)
  from default_banner_shapes mode first second show ?thesis
    by (intro conjI)
qed

section \<open>Gradient: ratio and interpolation\<close>

lemma int_truediv_unit:
  assumes "0 \<le> a" "a \<le> b" "0 < b"
  shows "int_truediv a b = Inr (Finite (round_even (of_int a / of_int b)))"
    and "0 \<le> round_even (of_int a / of_int b)" and "round_even (of_int a / of_int b) \<le> 1"
proof -
  let ?x = "of_int a / of_int b :: rat"
  have b: "of_int 0 \<le> ?x" "?x \<le> of_int 1"
    using assms by (simp_all add: divide_le_eq_1)
  note r = to_double_bounded [OF b]
  show "int_truediv a b = Inr (Finite (round_even ?x))"
    using assms(3) r(1) by (simp add: int_truediv_def)
  show "0 \<le> round_even ?x" "round_even ?x \<le> 1"
    using r(2,3) by simp_all
qed

lemma almost_one: "round_even (1 - 1 / 2 ^ 30) = 1 - 1 / 2 ^ 30"
proof -
  have "(1 - 1 / 2 ^ 30 :: rat) = of_int (2 ^ 30 - 1) * 2 powi (- 30)"
    by (simp add: power_int_minus_divide)
  moreover have "round_even (of_int (2 ^ 30 - 1) * 2 powi (- 30)) = of_int (2 ^ 30 - 1) * 2 powi (- 30)"
    by (intro round_even_exact) simp_all
  ultimately show ?thesis by simp
qed

lemma far_corner_ratio:
  assumes "1 \<le> w" "1 \<le> h" "w + h \<le> 2 ^ 31"
  shows "\<exists>r. diagonal_ratio w h (w - 1) (h - 1) = Inr (Finite r) \<and> 0 \<le> r \<and> r \<le> 1 - 1 / 2 ^ 30"
proof -
  let ?a = "w - 1 + (h - 1)" and ?b = "w + h"
  let ?x = "of_int ?a / of_int ?b :: rat"
  have bpos: "(0::rat) < of_int ?b" using assms by simp
  have "(of_int ?b :: rat) \<le> of_int (2 ^ 31)" using assms(3) by (simp only: of_int_le_iff)
  then have ble: "(of_int ?b :: rat) \<le> 2 ^ 31" by simp
  have "?x = 1 - 2 / of_int ?b"
    using bpos by (simp add: field_simps)
  moreover have "2 / 2 ^ 31 \<le> 2 / (of_int ?b :: rat)"
    using bpos ble by (intro divide_left_mono) simp_all
  ultimately have "?x \<le> 1 - 1 / 2 ^ 30" by simp
  then have "round_even ?x \<le> round_even (1 - 1 / 2 ^ 30)" by (rule round_even_mono)
  then have "round_even ?x \<le> 1 - 1 / 2 ^ 30" by (simp only: almost_one)
  moreover note int_truediv_unit(1,2) [of ?a ?b]
  ultimately show ?thesis
    using assms by (simp add: diagonal_ratio_def)
qed


lemma shifted_exact:
  assumes "0 \<le> n" "n \<le> 255"
  shows "round_even (of_int n - 1 / 2 ^ 30) = of_int n - 1 / 2 ^ 30"
proof -
  have "(of_int n - 1 / 2 ^ 30 :: rat) = of_int (n * 2 ^ 30 - 1) * 2 powi (- 30)"
    by (simp add: power_int_minus_divide field_simps)
  moreover have "round_even (of_int (n * 2 ^ 30 - 1) * 2 powi (- 30))
      = of_int (n * 2 ^ 30 - 1) * 2 powi (- 30)"
    using assms by (intro round_even_exact) simp_all
  ultimately show ?thesis by (simp only:)
qed

lemma round_even_between:
  assumes "of_int lo \<le> x" "x \<le> of_int hi" "\<bar>lo\<bar> < 2 ^ 53" "\<bar>hi\<bar> < 2 ^ 53"
  shows "of_int lo \<le> round_even x \<and> round_even x \<le> of_int hi"
  using to_double_bounded(2,3) [OF assms] by simp

text \<open>
  A channel of the gradient for a ratio in \<open>[0, 1]\<close> and byte colours: every conversion
  is exact, no operation overflows, and the value lies between the two ends.
\<close>

lemma lerp_channel_unit:
  assumes s: "0 \<le> s" "s \<le> 255" and e: "0 \<le> e" "e \<le> 255" and r: "0 \<le> r" "r \<le> 1"
  shows "\<exists>v. lerp_channel s e (Finite r) = Inr v \<and> min s e \<le> v \<and> v \<le> max s e
    \<and> v = \<lfloor>round_even (of_int s + round_even (of_int (e - s) * r))\<rfloor>"
proof -
  define d where "d = e - s"
  define m where "m = round_even (of_int d * r)"
  define v where "v = round_even (of_int s + m)"
  have dabs: "\<bar>d\<bar> < 2 ^ 53" and sabs: "\<bar>s\<bar> < 2 ^ 53"
    using s e by (simp_all add: d_def)
  have dr: "of_int (min 0 d) \<le> of_int d * r" "of_int d * r \<le> of_int (max 0 d)"
  proof -
    show "of_int (min 0 d) \<le> of_int d * r"
    proof (cases "0 \<le> d")
      case True
      then show ?thesis using r(1) by simp
    next
      case False
      then have "(of_int d :: rat) \<le> 0" by simp
      with r have "of_int d * 1 \<le> of_int d * r" by (intro mult_left_mono_neg) simp_all
      with False show ?thesis by simp
    qed
    show "of_int d * r \<le> of_int (max 0 d)"
    proof (cases "0 \<le> d")
      case True
      with r have "of_int d * r \<le> of_int d * 1" by (intro mult_left_mono) simp_all
      with True show ?thesis by simp
    next
      case False
      then have "(of_int d :: rat) \<le> 0" by simp
      with r(1) have "of_int d * r \<le> 0" by (simp add: mult_nonpos_nonneg)
      with False show ?thesis by simp
    qed
  qed
  have mm: "\<bar>min 0 d\<bar> < 2 ^ 53" "\<bar>max 0 d\<bar> < 2 ^ 53"
    using s e by (auto simp: d_def min_def max_def abs_if)
  have mb: "of_int (min 0 d) \<le> m \<and> m \<le> of_int (max 0 d)"
    unfolding m_def using dr mm by (rule round_even_between)
  have tm: "to_double (of_int d * r) = Finite m"
    unfolding m_def using dr mm by (rule to_double_bounded(1))
  have sm: "of_int (min s e) \<le> of_int s + m" "of_int s + m \<le> of_int (max s e)"
    using mb by (simp_all add: d_def min_def max_def split: if_splits)
  have se: "\<bar>min s e\<bar> < 2 ^ 53" "\<bar>max s e\<bar> < 2 ^ 53"
    using s e by (auto simp: min_def max_def abs_if)
  have vb: "of_int (min s e) \<le> v \<and> v \<le> of_int (max s e)"
    unfolding v_def using sm se by (rule round_even_between)
  have tv: "to_double (of_int s + m) = Finite v"
    unfolding v_def using sm se by (rule to_double_bounded(1))
  have v0: "0 \<le> v" using vb s e by (simp add: min_def split: if_splits)
  have "lerp_channel s e (Finite r) = Inr \<lfloor>v\<rfloor>"
    using v0
    by (simp add: lerp_channel_def int_mul_float_def int_add_float_def bind_err_def
        float_of_int_exact [OF dabs, unfolded d_def] float_of_int_exact [OF sabs]
        tm [unfolded d_def] tv del: of_int_diff)
  moreover have "min s e \<le> \<lfloor>v\<rfloor>" using vb by (simp add: le_floor_iff)
  moreover have "\<lfloor>v\<rfloor> \<le> max s e" using vb by (simp add: floor_le_iff)
  ultimately show ?thesis
    by (simp add: v_def m_def d_def)
qed


lemma lerp_channel_below:
  assumes s: "0 \<le> s" "s \<le> 255" and e: "0 \<le> e" "e \<le> 255"
    and r: "0 \<le> r" "r \<le> 1 - 1 / 2 ^ 30" and lt: "s < e"
  shows "\<exists>v. lerp_channel s e (Finite r) = Inr v \<and> s \<le> v \<and> v < e"
proof -
  define d where "d = e - s"
  have r1: "r \<le> 1" using r(2) by simp
  obtain v where v: "lerp_channel s e (Finite r) = Inr v" "min s e \<le> v"
    "v = \<lfloor>round_even (of_int s + round_even (of_int d * r))\<rfloor>"
    using lerp_channel_unit [OF s e r(1) r1] unfolding d_def by blast
  have d: "1 \<le> d" "d \<le> 255" using s e lt by (simp_all add: d_def)
  have d0: "0 \<le> d" using d(1) by simp
  have dq: "(1::rat) \<le> of_int d" using d(1) by simp
  have "of_int d * r \<le> of_int d * (1 - 1 / 2 ^ 30)"
    using r(2) dq by (intro mult_left_mono) simp_all
  also have "\<dots> = of_int d - of_int d * (1 / 2 ^ 30)"
    by (simp only: right_diff_distrib mult_1_right)
  also have "\<dots> \<le> of_int d - 1 / 2 ^ 30"
    using dq by simp
  finally have "round_even (of_int d * r) \<le> round_even (of_int d - 1 / 2 ^ 30)"
    by (rule round_even_mono)
  then have m: "round_even (of_int d * r) \<le> of_int d - 1 / 2 ^ 30"
    by (simp only: shifted_exact [OF d0 d(2)])
  have "of_int s + round_even (of_int d * r) \<le> of_int e - 1 / 2 ^ 30"
    using m by (simp add: d_def)
  then have "round_even (of_int s + round_even (of_int d * r)) \<le> round_even (of_int e - 1 / 2 ^ 30)"
    by (rule round_even_mono)
  then have "round_even (of_int s + round_even (of_int d * r)) \<le> of_int e - 1 / 2 ^ 30"
    by (simp only: shifted_exact [OF e])
  then have "round_even (of_int s + round_even (of_int d * r)) < of_int e"
    by simp
  then have "v < e" unfolding v(3) by (simp only: floor_less_iff)
  moreover have "s \<le> v" using v(2) lt by simp
  ultimately show ?thesis using v(1) by blast
qed

lemma lerp_color_unit:
  assumes "byte_color start" "byte_color end'" "0 \<le> r" "r \<le> 1"
  shows "\<exists>c. lerp_color start end' (Finite r) = Inr c \<and> byte_color c"
proof -
  obtain r0 g0 b0 a0 where s: "start = (r0, g0, b0, a0)" by (cases start)
  obtain r1 g1 b1 a1 where e: "end' = (r1, g1, b1, a1)" by (cases end')
  have b: "0 \<le> r0" "r0 \<le> 255" "0 \<le> g0" "g0 \<le> 255" "0 \<le> b0" "b0 \<le> 255" "0 \<le> a0" "a0 \<le> 255"
    "0 \<le> r1" "r1 \<le> 255" "0 \<le> g1" "g1 \<le> 255" "0 \<le> b1" "b1 \<le> 255" "0 \<le> a1" "a1 \<le> 255"
    using assms(1,2) by (simp_all add: byte_color_def s e)
  obtain r' where r': "lerp_channel r0 r1 (Finite r) = Inr r'" "min r0 r1 \<le> r'" "r' \<le> max r0 r1"
    using lerp_channel_unit [OF b(1,2,9,10) assms(3,4)] by blast
  obtain g' where g': "lerp_channel g0 g1 (Finite r) = Inr g'" "min g0 g1 \<le> g'" "g' \<le> max g0 g1"
    using lerp_channel_unit [OF b(3,4,11,12) assms(3,4)] by blast
  obtain b' where b': "lerp_channel b0 b1 (Finite r) = Inr b'" "min b0 b1 \<le> b'" "b' \<le> max b0 b1"
    using lerp_channel_unit [OF b(5,6,13,14) assms(3,4)] by blast
  obtain a' where a': "lerp_channel a0 a1 (Finite r) = Inr a'" "min a0 a1 \<le> a'" "a' \<le> max a0 a1"
    using lerp_channel_unit [OF b(7,8,15,16) assms(3,4)] by blast
  have "lerp_color start end' (Finite r) = Inr (r', g', b', a')"
    by (simp add: s e r'(1) g'(1) b'(1) a'(1) bind_err_def)
  moreover have "byte_color (r', g', b', a')"
    using b r'(2,3) g'(2,3) b'(2,3) a'(2,3) unfolding byte_color_def by auto
  ultimately show ?thesis by blast
qed

section \<open>Gradient: the pixel loop\<close>

lemma canvas_pixels_iff:
  "(x, y) \<in> set (canvas_pixels w h) \<longleftrightarrow> 0 \<le> x \<and> x < w \<and> 0 \<le> y \<and> y < h"
  by (force simp: canvas_pixels_def)

lemma diagonal_color_total:
  assumes "byte_color start" "byte_color end'" "0 \<le> x" "x < w" "0 \<le> y" "y < h"
  shows "\<exists>c. diagonal_color start end' w h (x, y) = Inr c"
proof -
  have a: "0 \<le> x + y" "x + y \<le> w + h" "0 < w + h" using assms(3-6) by simp_all
  note r = int_truediv_unit [OF a]
  obtain c where "lerp_color start end' (Finite (round_even (of_int (x + y) / of_int (w + h)))) = Inr c"
    using lerp_color_unit [OF assms(1,2) r(2,3)] by blast
  then have "diagonal_color start end' w h (x, y) = Inr c"
    by (simp add: diagonal_color_def diagonal_ratio_def r(1) bind_err_def del: of_int_add)
  then show ?thesis by (rule exI)
qed

lemma gradient_pixels_total:
  assumes "\<forall>p \<in> set ps. \<exists>c. diagonal_color start end' w h p = Inr c"
  shows "\<exists>img'. gradient_pixels start end' w h ps img = Inr img'"
  using assms
proof (induction ps arbitrary: img)
  case Nil
  show ?case by simp
next
  case (Cons p ps)
  then obtain c where c: "diagonal_color start end' w h p = Inr c" by auto
  from Cons.IH [of "Draw (Point p c) img"] Cons.prems show ?case
    by (simp add: c bind_err_def)
qed

lemma gradient_pixels_getpixel:
  assumes "gradient_pixels start end' w h ps img = Inr img'" "getpixel img q = Some c0"
  shows "getpixel img' q =
    (if q \<in> set ps
     then (case diagonal_color start end' w h q of Inl e \<Rightarrow> None | Inr c \<Rightarrow> Some c)
     else Some c0)"
  using assms
proof (induction ps arbitrary: img c0)
  case Nil
  then show ?case by simp
next
  case (Cons p ps)
  from Cons.prems(1) obtain c where c: "diagonal_color start end' w h p = Inr c"
    and rest: "gradient_pixels start end' w h ps (Draw (Point p c) img) = Inr img'"
    by (auto simp: bind_err_def split: sum.splits)
  have "getpixel (Draw (Point p c) img) q = Some (if p = q then c else c0)"
    using Cons.prems(2) by simp
  from Cons.IH [OF rest this] c show ?case
    by auto
qed

lemma diagonal_gradient_layer:
  assumes "direction (gradient (background self)) \<noteq> ''horizontal''"
    and "direction (gradient (background self)) \<noteq> ''vertical''"
    and "hex_to_rgba E (start_color (gradient (background self))) (Finite 1) = Inr start"
    and "hex_to_rgba E (end_color (gradient (background self))) (Finite 1) = Inr end'"
    and "byte_color start" "byte_color end'"
  shows "\<exists>img. gradient_layer_of E self = Inr img \<and>
    (\<forall>x y. 0 \<le> x \<and> x < base_width self \<and> 0 \<le> y \<and> y < base_height self \<longrightarrow>
       (\<exists>c. diagonal_color start end' (base_width self) (base_height self) (x, y) = Inr c \<and>
            getpixel img (x, y) = Some c))"
proof -
  let ?w = "base_width self" and ?h = "base_height self"
  let ?ps = "canvas_pixels ?w ?h"
  have total: "\<forall>p \<in> set ?ps. \<exists>c. diagonal_color start end' ?w ?h p = Inr c"
    using diagonal_color_total [OF assms(5,6)] by (auto simp: canvas_pixels_iff)
  then obtain img where img: "gradient_pixels start end' ?w ?h ?ps (New ?w ?h (0, 0, 0, 0)) = Inr img"
    using gradient_pixels_total by blast
  have layer: "gradient_layer_of E self = Inr img"
    using assms(1-4) img by (simp add: gradient_layer_of_def bind_err_def Let_def)
  have "\<exists>c. diagonal_color start end' ?w ?h (x, y) = Inr c \<and> getpixel img (x, y) = Some c"
    if "0 \<le> x \<and> x < ?w \<and> 0 \<le> y \<and> y < ?h" for x y
  proof -
    have mem: "(x, y) \<in> set ?ps" using that by (simp add: canvas_pixels_iff)
    have "getpixel (New ?w ?h (0, 0, 0, 0)) (x, y) = Some (0, 0, 0, 0)"
      using that by simp
    from gradient_pixels_getpixel [OF img this] mem
    have g: "getpixel img (x, y) =
        (case diagonal_color start end' ?w ?h (x, y) of Inl e \<Rightarrow> None | Inr c \<Rightarrow> Some c)"
      by simp
    obtain c where c: "diagonal_color start end' ?w ?h (x, y) = Inr c"
      using total mem by blast
    with g have "getpixel img (x, y) = Some c" by simp
    with c show ?thesis by blast
  qed
  with layer show ?thesis by blast
qed

lemma lerp_color_channels:
  assumes "lerp_color start end' ratio = Inr c" "i < 4"
  shows "lerp_channel (channels start ! i) (channels end' ! i) ratio = Inr (channels c ! i)"
proof -
  obtain r0 g0 b0 a0 where s: "start = (r0, g0, b0, a0)" by (cases start)
  obtain r1 g1 b1 a1 where e: "end' = (r1, g1, b1, a1)" by (cases end')
  obtain r g b a where c: "c = (r, g, b, a)" by (cases c)
  from assms(1) have "lerp_channel r0 r1 ratio = Inr r" "lerp_channel g0 g1 ratio = Inr g"
    "lerp_channel b0 b1 ratio = Inr b" "lerp_channel a0 a1 ratio = Inr a"
    by (auto simp: s e c bind_err_def split: sum.splits)
  moreover have "i = 0 \<or> i = 1 \<or> i = 2 \<or> i = 3" using assms(2) by arith
  ultimately show ?thesis
    by (auto simp: s e c)
qed

lemma byte_color_channels:
  assumes "byte_color c" "i < 4"
  shows "0 \<le> channels c ! i" "channels c ! i \<le> 255"
proof -
  obtain r g b a where c: "c = (r, g, b, a)" by (cases c)
  have "i = 0 \<or> i = 1 \<or> i = 2 \<or> i = 3" using assms(2) by arith
  then show "0 \<le> channels c ! i" "channels c ! i \<le> 255"
    using assms(1) by (auto simp: c byte_color_def)
qed

section \<open>Claim C9: the diagonal gradient at the far corner\<close>

lemma diagonal_color_D:
  assumes "diagonal_color start end' w h (x, y) = Inr c"
  shows "\<exists>ratio. int_truediv (x + y) (w + h) = Inr ratio \<and> lerp_color start end' ratio = Inr c"
  using assms
  by (auto simp: diagonal_color_def diagonal_ratio_def bind_err_def split: sum.splits)

lemma far_corner_channels:
  assumes "byte_color start" "byte_color end'" "0 \<le> r" "r \<le> 1 - 1 / 2 ^ 30"
    and "lerp_color start end' (Finite r) = Inr c" "i < 4"
  shows "channels start ! i < channels end' ! i \<Longrightarrow>
      channels start ! i \<le> channels c ! i \<and> channels c ! i < channels end' ! i"
    and "channels end' ! i \<le> channels start ! i \<Longrightarrow>
      channels end' ! i \<le> channels c ! i \<and> channels c ! i \<le> channels start ! i"
proof -
  let ?s = "channels start ! i" and ?e = "channels end' ! i"
  note s = byte_color_channels [OF assms(1,6)] and e = byte_color_channels [OF assms(2,6)]
  note v = lerp_color_channels [OF assms(5,6)]
  have r1: "r \<le> 1" using assms(4) by simp
  show "?s \<le> channels c ! i \<and> channels c ! i < ?e" if "?s < ?e"
    using lerp_channel_below [OF s e assms(3,4) that] v by auto
  show "?e \<le> channels c ! i \<and> channels c ! i \<le> ?s" if "?e \<le> ?s"
    using lerp_channel_unit [OF s e assms(3) r1] v that by auto
qed

lemma alpha_of_one: "py_int (fmul (clamp (Finite 1) (Finite 0) (Finite 1)) (Finite 255)) = Inr 255"
  by code_simp

lemma example_hex_colors:
  "hex_to_rgba example_env ''#ffffff'' (Finite 1) = Inr (255, 255, 255, 255)"
  "hex_to_rgba example_env ''#000000'' (Finite 1) = Inr (0, 0, 0, 255)"
  "hex_to_rgba example_env ''#ff3838'' (Finite 1) = Inr (255, 56, 56, 255)"
  "hex_to_rgba example_env ''#ffcf00'' (Finite 1) = Inr (255, 207, 0, 255)"
  by (simp_all add: hex_to_rgba_def example_env_def example_getrgb_def hex_byte_def
      hex_digit_def bind_err_def alpha_of_one del: fmul.simps)

lemma example_far_corner:
  "diagonal_color (255, 255, 255, 255) (0, 0, 0, 255) 1280 720 (1279, 719) = Inr (0, 0, 0, 255)"
  "diagonal_color (255, 56, 56, 255) (255, 207, 0, 255) 1280 720 (1279, 719)
     = Inr (255, 206, 0, 255)"
  by code_simp+

lemma float_lit_1: "float_lit 1 = Finite 1"
  by code_simp

lemma diagonal_designer_fields:
  "base_width (diagonal_designer c0 c1) = 1280" "base_height (diagonal_designer c0 c1) = 720"
  "direction (gradient (background (diagonal_designer c0 c1))) = ''diagonal''"
  "start_color (gradient (background (diagonal_designer c0 c1))) = c0"
  "end_color (gradient (background (diagonal_designer c0 c1))) = c1"
  "apply_background_corrections (diagonal_designer c0 c1) img = img"
  by (simp_all add: diagonal_designer_def init_designer_def default_background_def
      apply_background_corrections_def float_lit_1)

text \<open>
  C9 as stated: the far corner never reaches \<open>end_color\<close>. On the 1280 by 720 canvas, with
  the diagonal gradient from white to black, the pixel \<open>(1279, 719)\<close> is \<open>(0, 0, 0, 255)\<close>,
  which is \<open>end_color\<close>: the ratio is \<open>1998 / 2000\<close>, each channel is
  \<open>int(255 - 255 \<sqdot> 0.999) = int(0.255) = 0\<close>, and the alpha of both ends is 255.
\<close>

theorem diagonal_far_corner_counterexample:
  "pixel_of (render_gradient_background example_env (diagonal_designer ''#ffffff'' ''#000000''))
     (1279, 719) = Some (0, 0, 0, 255) \<and>
   hex_to_rgba example_env ''#000000'' (Finite 1) = Inr (0, 0, 0, 255)"
proof -
  let ?D = "diagonal_designer ''#ffffff'' ''#000000''"
  have "\<exists>img. gradient_layer_of example_env ?D = Inr img \<and>
      (\<forall>x y. 0 \<le> x \<and> x < base_width ?D \<and> 0 \<le> y \<and> y < base_height ?D \<longrightarrow>
         (\<exists>c. diagonal_color (255, 255, 255, 255) (0, 0, 0, 255) (base_width ?D) (base_height ?D)
                 (x, y) = Inr c \<and> getpixel img (x, y) = Some c))"
    by (rule diagonal_gradient_layer)
      (simp_all add: diagonal_designer_fields example_hex_colors byte_color_def)
  then obtain img where img: "gradient_layer_of example_env ?D = Inr img"
    and px: "\<And>x y. 0 \<le> x \<and> x < 1280 \<and> 0 \<le> y \<and> y < 720 \<Longrightarrow>
      \<exists>c. diagonal_color (255, 255, 255, 255) (0, 0, 0, 255) 1280 720 (x, y) = Inr c
          \<and> getpixel img (x, y) = Some c"
    unfolding diagonal_designer_fields by blast
  have "getpixel img (1279, 719) = Some (0, 0, 0, 255)"
    using px [of 1279 719] by (simp add: example_far_corner)
  then have "pixel_of (render_gradient_background example_env ?D) (1279, 719) = Some (0, 0, 0, 255)"
    by (simp add: pixel_of_def render_gradient_background_def img bind_err_def
        diagonal_designer_fields)
  then show ?thesis
    using example_hex_colors(2) by (rule conjI)
qed

text \<open>
  C9 (amended): on a canvas of width and height at least 1 (and \<open>W + H \<le> 2\<^sup>3\<^sup>1\<close>), with
  byte colours, the diagonal gradient is rendered, and every pixel \<open>(x, y)\<close> has the colour
  interpolated with the ratio \<open>(x + y) / (W + H)\<close>. At the far corner the ratio is strictly
  less than 1. There, a channel whose end value is greater than its start value stays
  strictly below the end value, and a channel whose end value is not greater lies
  between the end value and the start value, where the truncation toward zero can make
  it the end value itself.
\<close>

theorem diagonal_gradient_far_corner:
  assumes "direction (gradient (background self)) \<noteq> ''horizontal''"
    and "direction (gradient (background self)) \<noteq> ''vertical''"
    and "hex_to_rgba E (start_color (gradient (background self))) (Finite 1) = Inr start"
    and "hex_to_rgba E (end_color (gradient (background self))) (Finite 1) = Inr end'"
    and "byte_color start" "byte_color end'"
    and "1 \<le> base_width self" "1 \<le> base_height self"
    and "base_width self + base_height self \<le> 2 ^ 31"
  shows "\<exists>img. gradient_layer_of E self = Inr img \<and>
    (\<forall>x y. 0 \<le> x \<and> x < base_width self \<and> 0 \<le> y \<and> y < base_height self \<longrightarrow>
       (\<exists>ratio c. int_truediv (x + y) (base_width self + base_height self) = Inr ratio \<and>
          lerp_color start end' ratio = Inr c \<and> getpixel img (x, y) = Some c)) \<and>
    (\<exists>ratio c.
       int_truediv (base_width self - 1 + (base_height self - 1))
         (base_width self + base_height self) = Inr (Finite ratio) \<and>
       ratio < 1 \<and>
       lerp_color start end' (Finite ratio) = Inr c \<and>
       getpixel img (base_width self - 1, base_height self - 1) = Some c \<and>
       (\<forall>i < 4.
          (channels start ! i < channels end' ! i \<longrightarrow>
             channels start ! i \<le> channels c ! i \<and> channels c ! i < channels end' ! i) \<and>
          (channels end' ! i \<le> channels start ! i \<longrightarrow>
             channels end' ! i \<le> channels c ! i \<and> channels c ! i \<le> channels start ! i)))"
proof -
  let ?w = "base_width self" and ?h = "base_height self"
  from diagonal_gradient_layer [OF assms(1-6)] obtain img where
    img: "gradient_layer_of E self = Inr img"
    and px: "\<And>x y. 0 \<le> x \<and> x < ?w \<and> 0 \<le> y \<and> y < ?h \<Longrightarrow>
      \<exists>c. diagonal_color start end' ?w ?h (x, y) = Inr c \<and> getpixel img (x, y) = Some c"
    by blast
  have every: "\<exists>ratio c. int_truediv (x + y) (?w + ?h) = Inr ratio \<and>
      lerp_color start end' ratio = Inr c \<and> getpixel img (x, y) = Some c"
    if "0 \<le> x \<and> x < ?w \<and> 0 \<le> y \<and> y < ?h" for x y
    using px [OF that] diagonal_color_D by blast
  obtain r where r: "diagonal_ratio ?w ?h (?w - 1) (?h - 1) = Inr (Finite r)"
    "0 \<le> r" "r \<le> 1 - 1 / 2 ^ 30"
    using far_corner_ratio [OF assms(7-9)] by blast
  have "0 \<le> ?w - 1 \<and> ?w - 1 < ?w \<and> 0 \<le> ?h - 1 \<and> ?h - 1 < ?h"
    using assms(7,8) by simp
  from px [OF this] obtain c where
    c: "diagonal_color start end' ?w ?h (?w - 1, ?h - 1) = Inr c"
    and g: "getpixel img (?w - 1, ?h - 1) = Some c"
    by blast
  have l: "lerp_color start end' (Finite r) = Inr c"
    using c by (simp add: diagonal_color_def r(1) bind_err_def)
  have r1: "r < 1" using r(3) by simp
  have t: "int_truediv (?w - 1 + (?h - 1)) (?w + ?h) = Inr (Finite r)"
    using r(1) by (simp add: diagonal_ratio_def)
  have ch: "\<forall>i < 4.
      (channels start ! i < channels end' ! i \<longrightarrow>
         channels start ! i \<le> channels c ! i \<and> channels c ! i < channels end' ! i) \<and>
      (channels end' ! i \<le> channels start ! i \<longrightarrow>
         channels end' ! i \<le> channels c ! i \<and> channels c ! i \<le> channels start ! i)"
    using far_corner_channels [OF assms(5,6) r(2,3) l] by blast
  from img every t r1 l g ch show ?thesis by blast
qed

theorem diagonal_gradient_far_corner_witness:
  "byte_color (255, 56, 56, 255) \<and> byte_color (255, 207, 0, 255) \<and>
   hex_to_rgba example_env ''#ff3838'' (Finite 1) = Inr (255, 56, 56, 255) \<and>
   hex_to_rgba example_env ''#ffcf00'' (Finite 1) = Inr (255, 207, 0, 255) \<and>
   (\<exists>img ratio.
      gradient_layer_of example_env (diagonal_designer ''#ff3838'' ''#ffcf00'') = Inr img \<and>
      int_truediv 1998 2000 = Inr (Finite ratio) \<and> ratio < 1 \<and>
      getpixel img (1279, 719) = Some (255, 206, 0, 255))"
proof -
  let ?D = "diagonal_designer ''#ff3838'' ''#ffcf00''"
  let ?s = "(255, 56, 56, 255) :: rgba" and ?e = "(255, 207, 0, 255) :: rgba"
  have bytes: "byte_color ?s" "byte_color ?e"
    by (simp_all add: byte_color_def)
  have "\<exists>img. gradient_layer_of example_env ?D = Inr img \<and>
      (\<forall>x y. 0 \<le> x \<and> x < base_width ?D \<and> 0 \<le> y \<and> y < base_height ?D \<longrightarrow>
         (\<exists>ratio c. int_truediv (x + y) (base_width ?D + base_height ?D) = Inr ratio \<and>
            lerp_color ?s ?e ratio = Inr c \<and> getpixel img (x, y) = Some c)) \<and>
      (\<exists>ratio c.
         int_truediv (base_width ?D - 1 + (base_height ?D - 1))
           (base_width ?D + base_height ?D) = Inr (Finite ratio) \<and>
         ratio < 1 \<and>
         lerp_color ?s ?e (Finite ratio) = Inr c \<and>
         getpixel img (base_width ?D - 1, base_height ?D - 1) = Some c \<and>
         (\<forall>i < 4.
            (channels ?s ! i < channels ?e ! i \<longrightarrow>
               channels ?s ! i \<le> channels c ! i \<and> channels c ! i < channels ?e ! i) \<and>
            (channels ?e ! i \<le> channels ?s ! i \<longrightarrow>
               channels ?e ! i \<le> channels c ! i \<and> channels c ! i \<le> channels ?s ! i)))"
    by (rule diagonal_gradient_far_corner)
      (simp_all add: diagonal_designer_fields example_hex_colors bytes)
  then obtain img ratio c where img: "gradient_layer_of example_env ?D = Inr img"
    and t: "int_truediv 1998 2000 = Inr (Finite ratio)" and r: "ratio < 1"
    and l: "lerp_color ?s ?e (Finite ratio) = Inr c"
    and g: "getpixel img (1279, 719) = Some c"
    unfolding diagonal_designer_fields by auto
  have "diagonal_color ?s ?e 1280 720 (1279, 719) = Inr c"
    using t l by (simp add: diagonal_color_def diagonal_ratio_def bind_err_def)
  then have "c = (255, 206, 0, 255)"
    by (simp add: example_far_corner)
  with img t r g show ?thesis
    using bytes example_hex_colors(3,4) by blast
qed

end
